theory Spec2Isabelle
  imports Main "HOL-Library.Word" "HOL-Library.AList" "HOL-Library.Multiset"
begin

section \<open>Formatting verbs of the fmt package used by the two programs\<close>

text \<open>
  Strings are byte lists. Only the verbs the programs use are modelled:
  \<^verbatim>\<open>%d\<close> on integers and \<^verbatim>\<open>%v\<close> on slices of integers and of strings.
\<close>

type_synonym int32 = "32 word"
type_synonym int64 = "64 word"

definition digit_char :: "nat \<Rightarrow> char" where
  "digit_char d = char_of (48 + d)"

fun digits :: "nat \<Rightarrow> string" where
  "digits n = (if n < 10 then [digit_char n] else digits (n div 10) @ [digit_char (n mod 10)])"

declare digits.simps [simp del]

definition fmt_d :: "int \<Rightarrow> string" where
  "fmt_d i = (if i < 0 then CHR ''-'' # digits (nat (- i)) else digits (nat i))"

fun join_sp :: "string list \<Rightarrow> string" where
  "join_sp [] = []"
| "join_sp [x] = x"
| "join_sp (x # y # ys) = x @ '' '' @ join_sp (y # ys)"

definition fmt_v_strings :: "string list \<Rightarrow> string" where
  "fmt_v_strings xs = ''['' @ join_sp xs @ '']''"

definition fmt_v_int32s :: "int32 list \<Rightarrow> string" where
  "fmt_v_int32s ps = fmt_v_strings (map (\<lambda>p. fmt_d (sint p)) ps)"

section \<open>Event generator: \<^verbatim>\<open>generateUserEvents\<close> (cmd/producer/main.go)\<close>

text \<open>
  A \<^verbatim>\<open>time.Time\<close> is modelled by its instant, in nanoseconds since the Unix epoch, an
  unbounded integer. \<^verbatim>\<open>time.Now()\<close> reads the wall clock; the generator calls it once
  in every iteration, so the model takes the clock as a function from the iteration
  index to the instant read there. \<^verbatim>\<open>Data\<close> is a \<^verbatim>\<open>map[string]interface{}\<close> whose
  values are all strings; it is kept as an association list with distinct keys, in the
  order the source inserts them.
\<close>

record UserEvent =
  UserID :: string
  EventType :: string
  Timestamp :: int
  Data :: "(string \<times> string) list"

definition users :: "string list" where
  "users = [''user-123'', ''user-456'', ''user-789'']"

definition eventTypes :: "string list" where
  "eventTypes = [''page_view'', ''purchase'', ''login'', ''logout'', ''search'', ''add_to_cart'']"

definition Second :: int64 where
  "Second = 1000000000"

definition Millisecond :: int64 where
  "Millisecond = 1000000"

text \<open>
  \<^verbatim>\<open>time.Duration(i) * time.Second\<close> and \<^verbatim>\<open>time.Duration(i) * time.Millisecond\<close>:
  products of two int64 values, which wrap around. The result is read back as a signed
  number of nanoseconds.
\<close>

definition seconds :: "int \<Rightarrow> int" where
  "seconds i = sint ((word_of_int i :: int64) * Second)"

definition milliseconds :: "int \<Rightarrow> int" where
  "milliseconds i = sint ((word_of_int i :: int64) * Millisecond)"

text \<open>
  \<^verbatim>\<open>Time.Add\<close> saturates only when the seconds since year 1 leave the int64 range,
  which no instant within 292 years of the epoch plus an int64 duration does; the model
  is the exact sum.
\<close>

definition Add :: "int \<Rightarrow> int \<Rightarrow> int" where
  "Add t d = t + d"

text \<open>
  \<^verbatim>\<open>fmt.Sprintf("%.2f", float64(k)/100)\<close> for \<open>1 \<le> k \<le> 1000\<close>: the double nearest to
  \<open>k/100\<close> differs from it by far less than half a unit of the second decimal, so the
  two printed decimals are those of \<open>k/100\<close> itself.
\<close>

definition fmt_hundredths :: "int \<Rightarrow> string" where
  "fmt_hundredths k =
     fmt_d (k div 100) @ ''.'' @ fmt_d (k mod 100 div 10) @ fmt_d (k mod 10)"

definition event_at :: "int \<Rightarrow> int \<Rightarrow> UserEvent" where
  "event_at now i =
     (let userID = users ! nat (i mod int (length users));
          eventType = eventTypes ! nat (i mod int (length eventTypes));
          data = [(''session_id'', ''session-'' @ fmt_d i),
                  (''ip_address'', ''192.168.1.'' @ fmt_d (i mod 254 + 1)),
                  (''user_agent'', ''Mozilla/5.0 (Macintosh; Intel Mac OS X 10_15_7)'')];
          data' = (if eventType = ''purchase''
                   then data @ [(''amount'', fmt_hundredths (i mod 1000 + 1)),
                                (''product_id'', ''prod-'' @ fmt_d (i mod 100 + 1))]
                   else if eventType = ''search''
                   then data @ [(''query'', ''search term '' @ fmt_d (i + 1))]
                   else data)
      in \<lparr>UserID = userID, EventType = eventType,
          Timestamp = Add now (seconds i), Data = data'\<rparr>)"

text \<open>
  The loop \<^verbatim>\<open>for i := 0; i < count; i++\<close>, appending one event per iteration. The
  index never exceeds the count \<open>n\<close>, so it does not overflow.
\<close>

function gen_loop :: "(int \<Rightarrow> int) \<Rightarrow> int \<Rightarrow> int \<Rightarrow> UserEvent list \<Rightarrow> UserEvent list" where
  "gen_loop clock n i events =
     (if i < n then gen_loop clock n (i + 1) (events @ [event_at (clock i) i])
      else events)"
  by pat_completeness auto
termination
  by (relation "measure (\<lambda>(clock, n, i, events). nat (n - i))") auto

declare gen_loop.simps [simp del]

definition generateUserEvents :: "(int \<Rightarrow> int) \<Rightarrow> int \<Rightarrow> UserEvent list" where
  "generateUserEvents clock n = gen_loop clock n 0 []"


section \<open>Configuration from the environment (both programs)\<close>

text \<open>
  The process environment is a partial map from names to values; \<^verbatim>\<open>os.Getenv\<close>
  returns the empty string for a name that is not set.
\<close>

definition Getenv :: "(string \<rightharpoonup> string) \<Rightarrow> string \<Rightarrow> string" where
  "Getenv env key = (case env key of None \<Rightarrow> [] | Some v \<Rightarrow> v)"

text \<open>
  \<^verbatim>\<open>strconv.Atoi\<close> of the standard library, on a 64-bit platform: an optional sign,
  then one or more decimal digits and nothing else, and a value in the int64 range;
  every other string is an error (\<open>None\<close>).
\<close>

definition is_digit :: "char \<Rightarrow> bool" where
  "is_digit c = (48 \<le> (of_char c :: nat) \<and> (of_char c :: nat) \<le> 57)"

definition digit_val :: "char \<Rightarrow> int" where
  "digit_val c = int (of_char c) - 48"

fun dec_val :: "int \<Rightarrow> string \<Rightarrow> int" where
  "dec_val n [] = n"
| "dec_val n (ch # cs) = dec_val (n * 10 + digit_val ch) cs"

definition Atoi :: "string \<Rightarrow> int option" where
  "Atoi s =
     (let signed = (s \<noteq> [] \<and> (hd s = CHR ''-'' \<or> hd s = CHR ''+''));
          neg = (s \<noteq> [] \<and> hd s = CHR ''-'');
          body = (if signed then tl s else s)
      in if body = [] then None
         else if list_all is_digit body
         then (let n = dec_val 0 body; v = (if neg then - n else n)
               in if - (2 ^ 63) \<le> v \<and> v < 2 ^ 63 then Some v else None)
         else None)"

definition getEnv :: "(string \<rightharpoonup> string) \<Rightarrow> string \<Rightarrow> string \<Rightarrow> string" where
  "getEnv env key defaultValue =
     (let v = Getenv env key in if v \<noteq> [] then v else defaultValue)"

definition getEnvAsInt :: "(string \<rightharpoonup> string) \<Rightarrow> string \<Rightarrow> int \<Rightarrow> int" where
  "getEnvAsInt env key defaultValue =
     (let v = Getenv env key
      in if v \<noteq> []
         then (case Atoi v of Some intValue \<Rightarrow> intValue | None \<Rightarrow> defaultValue)
         else defaultValue)"

text \<open>\<^verbatim>\<open>strings.Split(s, ",")\<close>: the pieces between the separators, at least one.\<close>

fun split_on :: "char \<Rightarrow> string \<Rightarrow> string list" where
  "split_on sep [] = [[]]"
| "split_on sep (x # xs) =
     (if x = sep then [] # split_on sep xs
      else (case split_on sep xs of [] \<Rightarrow> [[x]] | y # ys \<Rightarrow> (x # y) # ys))"

definition getBrokers :: "(string \<rightharpoonup> string) \<Rightarrow> string list" where
  "getBrokers env =
     split_on CHR '','' (getEnv env ''KAFKA_BROKERS'' ''localhost:9092,localhost:9094,localhost:9096'')"

section \<open>The partition distribution record and its summary\<close>

text \<open>
  The record is a \<^verbatim>\<open>map[string][]int32\<close>. It is kept as an association list with
  distinct keys. \<^verbatim>\<open>partitionMap[key]\<close> of a missing key is the nil slice.
\<close>

type_synonym partition_map = "(string \<times> int32 list) list"

definition lookup :: "partition_map \<Rightarrow> string \<Rightarrow> int32 list" where
  "lookup pm key = (case map_of pm key of None \<Rightarrow> [] | Some ps \<Rightarrow> ps)"

definition append_partition :: "partition_map \<Rightarrow> string \<Rightarrow> int32 \<Rightarrow> partition_map" where
  "append_partition pm key p = AList.update key (lookup pm key @ [p]) pm"

text \<open>
  Go leaves the order of a \<^verbatim>\<open>range\<close> over a map open, and it may differ from one
  loop to the next. The order a run of the summary routine meets is a parameter: a
  ranking of the keys of the record, and for every key a ranking of the keys of its
  \<^verbatim>\<open>uniquePartitions\<close> map. A range visits the keys by ascending rank.
\<close>

record map_order =
  key_rank :: "string \<Rightarrow> nat"
  part_rank :: "string \<Rightarrow> int32 \<Rightarrow> nat"

definition range_keys :: "map_order \<Rightarrow> partition_map \<Rightarrow> string list" where
  "range_keys ord pm = sort_key (key_rank ord) (map fst pm)"

text \<open>
  The two inner loops: the partitions of one user are put into a set
  (\<^verbatim>\<open>uniquePartitions[p] = true\<close>), and the set is ranged over into \<^verbatim>\<open>uniqueParts\<close>.
\<close>

definition unique_parts :: "map_order \<Rightarrow> string \<Rightarrow> int32 list \<Rightarrow> int32 list" where
  "unique_parts ord userID partitions = sort_key (part_rank ord userID) (remdups partitions)"

definition summary_header :: string where
  "summary_header = ''=== Partition Distribution Summary ===''"

text \<open>
  The consumer's routine (cmd/consumer/main.go): the messages of its \<^verbatim>\<open>log.Printf\<close>
  calls, in order.
\<close>

definition consumer_row :: "map_order \<Rightarrow> partition_map \<Rightarrow> string \<Rightarrow> string" where
  "consumer_row ord pm userID =
     (let partitions = lookup pm userID;
          uniqueParts = unique_parts ord userID partitions
      in ''User '' @ userID @ '': '' @ fmt_d (int (length partitions)) @
         '' messages all came from partition(s) '' @ fmt_v_int32s uniqueParts)"

definition showPartitionSummary :: "map_order \<Rightarrow> partition_map \<Rightarrow> string list" where
  "showPartitionSummary ord pm =
     [[], summary_header] @ map (consumer_row ord pm) (range_keys ord pm) @
     [''====================================='']"

text \<open>
  The producer's routine (cmd/producer/main.go): the messages of its \<^verbatim>\<open>log.Printf\<close>
  calls, in order.
\<close>

definition producer_row :: "map_order \<Rightarrow> partition_map \<Rightarrow> string \<Rightarrow> string" where
  "producer_row ord pm userID =
     (let partitions = lookup pm userID;
          uniqueParts = unique_parts ord userID partitions
      in ''User '' @ userID @ '': '' @ fmt_d (int (length partitions)) @
         '' messages all went to partition(s) '' @ fmt_v_int32s uniqueParts)"

definition showProducerPartitionSummary :: "map_order \<Rightarrow> partition_map \<Rightarrow> string list" where
  "showProducerPartitionSummary ord pm =
     [[], summary_header] @ map (producer_row ord pm) (range_keys ord pm) @
     [''======================================'']"

section \<open>The standard logger\<close>

text \<open>
  Both programs log through \<^verbatim>\<open>log.Printf\<close> of the standard logger with its default
  flags, which writes one line per call: the date and time of the call, then the
  message. The lists of lines kept by the models below (the summary routines, the
  producer's and the consumer's log) hold the messages, in the order of the calls.
  \<open>log_written\<close> gives what the logger writes for such a list: \<open>stamp\<close> renders the
  prefix from the instant of a call (local date and time, to the second), and
  \<open>clock j\<close> is the instant of call number \<open>j\<close>.
\<close>

definition Printf :: "(int \<Rightarrow> string) \<Rightarrow> int \<Rightarrow> string \<Rightarrow> string" where
  "Printf stamp now message = stamp now @ message"

fun written_from :: "(int \<Rightarrow> string) \<Rightarrow> (nat \<Rightarrow> int) \<Rightarrow> nat \<Rightarrow> string list \<Rightarrow> string list" where
  "written_from stamp clock i [] = []"
| "written_from stamp clock i (m # ms) =
     Printf stamp (clock i) m # written_from stamp clock (Suc i) ms"

definition log_written :: "(int \<Rightarrow> string) \<Rightarrow> (nat \<Rightarrow> int) \<Rightarrow> string list \<Rightarrow> string list" where
  "log_written stamp clock ms = written_from stamp clock 0 ms"

section \<open>Routing producer: the main loop of cmd/producer/main.go\<close>

text \<open>
  The loop is a \<^verbatim>\<open>select\<close> between the cancellation context and the ticker. A run
  is driven by the list of cases the select takes, in order; a tick carries the answer
  of the broker to the send attempted on it (unused when no send is attempted). The
  state holds the variables of \<^verbatim>\<open>main\<close> that the loop changes, the lines logged by the
  main goroutine (without the logger's time prefix), and the messages handed to
  \<^verbatim>\<open>SendMessage\<close>.
\<close>

datatype ProducerMessage = ProducerMessage (msgTopic: string) (msgKey: string) (msgValue: string)

datatype send_result = Delivered int32 int64 | SendError string

datatype producer_case = CtxDone | Tick send_result

datatype 'a flow = Continue 'a | Return 'a

record producer_state =
  p_count :: int
  p_partitionMap :: partition_map
  p_logged :: "string list"
  p_sent :: "ProducerMessage list"

text \<open>
  What the loop reads and does not change. \<open>p_encode\<close> stands for the
  \<^verbatim>\<open>fmt.Sprintf\<close> call that renders the payload of an event (its time in RFC 3339, its
  data with \<^verbatim>\<open>%v\<close>); \<open>p_order\<close> is the map order met by the summary routine.
\<close>

record producer_setup =
  p_topic :: string
  p_messageCount :: int
  p_events :: "UserEvent list"
  p_encode :: "UserEvent \<Rightarrow> string"
  p_order :: map_order

text \<open>
  One turn of the loop. \<open>p_count\<close> starts at 0 and only grows, so the index
  \<^verbatim>\<open>events[count]\<close> is in range once the guard has failed.
\<close>

definition producer_select :: "producer_setup \<Rightarrow> producer_state \<Rightarrow> producer_case \<Rightarrow> producer_state flow" where
  "producer_select cfg s c =
     (case c of
        CtxDone \<Rightarrow> Return (s\<lparr>p_logged := p_logged s @ [''Producer stopped'']\<rparr>)
      | Tick r \<Rightarrow>
          if p_count s \<ge> p_messageCount cfg \<or> p_count s \<ge> int (length (p_events cfg))
          then Return (s\<lparr>p_logged := p_logged s @
                   [''Sent '' @ fmt_d (p_count s) @ '' messages, stopping producer''] @
                   showProducerPartitionSummary (p_order cfg) (p_partitionMap s)\<rparr>)
          else
            (let event = p_events cfg ! nat (p_count s);
                 key = UserID event;
                 msg = ProducerMessage (p_topic cfg) key (p_encode cfg event);
                 s1 = s\<lparr>p_sent := p_sent s @ [msg]\<rparr>;
                 s2 = (case r of
                         SendError err \<Rightarrow>
                           s1\<lparr>p_logged := p_logged s1 @ [''Failed to send message: '' @ err]\<rparr>
                       | Delivered part offs \<Rightarrow>
                           s1\<lparr>p_logged := p_logged s1 @
                                [''Message sent - Partition: '' @ fmt_d (sint part) @
                                 '', Offset: '' @ fmt_d (sint offs) @ '', Key: '' @ key @
                                 '', Event: '' @ EventType event],
                              p_partitionMap := append_partition (p_partitionMap s1) key part\<rparr>)
             in Continue (s2\<lparr>p_count := p_count s2 + 1\<rparr>)))"

fun producer_loop :: "producer_setup \<Rightarrow> producer_state \<Rightarrow> producer_case list \<Rightarrow> producer_state flow" where
  "producer_loop cfg s [] = Continue s"
| "producer_loop cfg s (c # cs) =
     (case producer_select cfg s c of
        Return s' \<Rightarrow> Return s'
      | Continue s' \<Rightarrow> producer_loop cfg s' cs)"

text \<open>
  The whole of \<^verbatim>\<open>main\<close>. The world it runs in: the environment (after the .env file,
  if any, has been loaded), whether that file was missing, the error of the connection
  to the brokers if it fails, the clock, and the cases the select takes. The process
  ends with an exit status, dies of a panic (\<^verbatim>\<open>time.NewTicker\<close> panics on an interval
  that is not positive), or is still waiting in its select when the cases are used up.
\<close>

datatype exit = Exit nat | Panic | Waiting

record producer_world =
  w_env :: "string \<rightharpoonup> string"
  w_dotenv_missing :: bool
  w_connect_error :: "string option"
  w_clock :: "int \<Rightarrow> int"
  w_encode :: "UserEvent \<Rightarrow> string"
  w_order :: map_order
  w_cases :: "producer_case list"

definition producer_banner :: "producer_world \<Rightarrow> string list" where
  "producer_banner w =
     (if w_dotenv_missing w then [''No .env file found, using default values''] else []) @
     [''Starting Kafka Producer - Partition Routing Demo'',
      ''Brokers: '' @ fmt_v_strings (getBrokers (w_env w)),
      ''Topic: '' @ getEnv (w_env w) ''KAFKA_TOPIC'' ''test-topic'',
      ''Message Count: '' @ fmt_d (getEnvAsInt (w_env w) ''MESSAGE_COUNT'' 20),
      ''Message Interval: '' @ fmt_d (getEnvAsInt (w_env w) ''MESSAGE_INTERVAL_MS'' 500) @ ''ms'',
      []]"

definition producer_main :: "producer_world \<Rightarrow> exit \<times> producer_state" where
  "producer_main w =
     (let topic = getEnv (w_env w) ''KAFKA_TOPIC'' ''test-topic'';
          messageCount = getEnvAsInt (w_env w) ''MESSAGE_COUNT'' 20;
          messageInterval = getEnvAsInt (w_env w) ''MESSAGE_INTERVAL_MS'' 500;
          s0 = \<lparr>p_count = 0, p_partitionMap = [], p_logged = producer_banner w, p_sent = []\<rparr>
      in case w_connect_error w of
           Some err \<Rightarrow>
             (Exit 1, s0\<lparr>p_logged := p_logged s0 @
                [''Failed to create producer: failed to create producer: '' @ err]\<rparr>)
         | None \<Rightarrow>
             (let events = generateUserEvents (w_clock w) messageCount;
                  cfg = \<lparr>p_topic = topic, p_messageCount = messageCount, p_events = events,
                         p_encode = w_encode w, p_order = w_order w\<rparr>
              in if milliseconds messageInterval \<le> 0
                 then (Panic, s0)
                 else (case producer_loop cfg s0 (w_cases w) of
                         Return s \<Rightarrow> (Exit 0, s)
                       | Continue s \<Rightarrow> (Waiting, s))))"

section \<open>Routing consumer: cmd/consumer/main.go\<close>

text \<open>
  \<^verbatim>\<open>ConsumeClaim\<close> is the handler the client library calls for every partition claim
  of a session. Its loop is a \<^verbatim>\<open>select\<close> between the claim's message channel and the
  session's context; a receive from the closed channel yields nil. The state holds the
  three local variables, the lines logged and the messages marked as processed.
\<close>

record ConsumerMessage =
  Key :: string
  Value :: string
  Partition :: int32
  Offset :: int64

datatype claim_case = Message ConsumerMessage | ChannelClosed | SessionDone

record claim_state =
  c_partitionMap :: partition_map
  c_messageCount :: int
  c_summaryShown :: bool
  c_logged :: "string list"
  c_marked :: "ConsumerMessage list"

definition claim_select :: "map_order \<Rightarrow> claim_state \<Rightarrow> claim_case \<Rightarrow> claim_state flow" where
  "claim_select ord s c =
     (case c of
        ChannelClosed \<Rightarrow>
          Return (if \<not> c_summaryShown s \<and> length (c_partitionMap s) > 0
                  then s\<lparr>c_logged := c_logged s @ showPartitionSummary ord (c_partitionMap s),
                         c_summaryShown := True\<rparr>
                  else s)
      | Message message \<Rightarrow>
          (let messageCount = c_messageCount s + 1;
               userID = Key message
           in Continue (s\<lparr>c_messageCount := messageCount,
                 c_partitionMap := append_partition (c_partitionMap s) userID (Partition message),
                 c_logged := c_logged s @
                   [''Message #'' @ fmt_d messageCount @ '' received - Partition: '' @
                    fmt_d (sint (Partition message)) @ '', Offset: '' @
                    fmt_d (sint (Offset message)) @ '', Key: '' @ userID @
                    '', Value: '' @ Value message],
                 c_marked := c_marked s @ [message]\<rparr>))
      | SessionDone \<Rightarrow>
          Return (if \<not> c_summaryShown s \<and> length (c_partitionMap s) > 0
                  then s\<lparr>c_logged := c_logged s @ showPartitionSummary ord (c_partitionMap s),
                         c_summaryShown := True\<rparr>
                  else s))"

fun claim_loop :: "map_order \<Rightarrow> claim_state \<Rightarrow> claim_case list \<Rightarrow> claim_state flow" where
  "claim_loop ord s [] = Continue s"
| "claim_loop ord s (c # cs) =
     (case claim_select ord s c of
        Return s' \<Rightarrow> Return s'
      | Continue s' \<Rightarrow> claim_loop ord s' cs)"

text \<open>
  The effects of the consumer process: the lines logged and the messages marked. A call
  of \<^verbatim>\<open>ConsumeClaim\<close> starts from fresh local variables and adds to the effects.
\<close>

type_synonym effects = "string list \<times> ConsumerMessage list"

definition ConsumeClaim :: "map_order \<Rightarrow> effects \<Rightarrow> claim_case list \<Rightarrow> effects flow" where
  "ConsumeClaim ord eff cs =
     (case claim_loop ord \<lparr>c_partitionMap = [], c_messageCount = 0, c_summaryShown = False,
                            c_logged = fst eff, c_marked = snd eff\<rparr> cs of
        Return s \<Rightarrow> Return (c_logged s, c_marked s)
      | Continue s \<Rightarrow> Continue (c_logged s, c_marked s))"

text \<open>
  One call of the library's \<^verbatim>\<open>ConsumerGroup.Consume\<close> is one session: the library
  calls \<^verbatim>\<open>Setup\<close>, then \<^verbatim>\<open>ConsumeClaim\<close> once for every claim of the session, then
  \<^verbatim>\<open>Cleanup\<close>, and returns an error or nil. The library runs the claims of a session
  in goroutines of their own; the model runs them one after the other, which keeps
  every line a claim logs and loses only the interleaving of lines of different claims.
  A session is given by its claims (each with the cases its select takes and the map
  order its summary meets), the error the library returns, and whether the context is
  cancelled when it returns.
\<close>

record session =
  s_claims :: "(map_order \<times> claim_case list) list"
  s_error :: "string option"
  s_cancelled :: bool

record Consumer =
  topic :: string
  groupID :: string

definition Setup :: "Consumer \<Rightarrow> string" where
  "Setup c = ''Consumer setup completed for topic: '' @ topic c @ '', group: '' @ groupID c"

definition Cleanup :: "Consumer \<Rightarrow> string" where
  "Cleanup c = ''Consumer cleanup completed for topic: '' @ topic c @ '', group: '' @ groupID c"

fun run_claims :: "effects \<Rightarrow> (map_order \<times> claim_case list) list \<Rightarrow> effects flow" where
  "run_claims eff [] = Return eff"
| "run_claims eff ((ord, cs) # rest) =
     (case ConsumeClaim ord eff cs of
        Return eff' \<Rightarrow> run_claims eff' rest
      | Continue eff' \<Rightarrow> Continue eff')"

text \<open>
  \<^verbatim>\<open>Consumer.Consume\<close>: sessions one after the other, until the library reports an error
  or the context is cancelled. It has no other way out, so it returns an error whenever
  it returns; \<open>None\<close> is a run still inside a session.
\<close>

fun Consume :: "Consumer \<Rightarrow> effects \<Rightarrow> session list \<Rightarrow> string option \<times> effects" where
  "Consume c eff [] = (None, eff)"
| "Consume c eff (ss # rest) =
     (case run_claims (fst eff @ [Setup c], snd eff) (s_claims ss) of
        Continue eff' \<Rightarrow> (None, eff')
      | Return eff' \<Rightarrow>
          (let eff'' = (fst eff' @ [Cleanup c], snd eff')
           in case s_error ss of
                Some err \<Rightarrow> (Some (''error from consumer: '' @ err), eff'')
              | None \<Rightarrow>
                  if s_cancelled ss then (Some ''context canceled'', eff'')
                  else Consume c eff'' rest))"

record consumer_world =
  cw_env :: "string \<rightharpoonup> string"
  cw_dotenv_missing :: bool
  cw_connect_error :: "string option"
  cw_sessions :: "session list"

definition consumer_banner :: "consumer_world \<Rightarrow> string list" where
  "consumer_banner w =
     (let maxMessages = getEnvAsInt (cw_env w) ''MAX_MESSAGES'' 0
      in (if cw_dotenv_missing w then [''No .env file found, using default values''] else []) @
         [''Starting Kafka Consumer - Partition Routing Demo'',
          ''Brokers: '' @ fmt_v_strings (getBrokers (cw_env w)),
          ''Topic: '' @ getEnv (cw_env w) ''KAFKA_TOPIC'' ''test-topic'',
          ''Group ID: '' @ getEnv (cw_env w) ''KAFKA_GROUP_ID'' ''test-consumer-group'',
          (if maxMessages > 0 then ''Max Messages: '' @ fmt_d maxMessages
           else ''Max Messages: Unlimited''),
          [],
          ''This demo shows how messages with the same keys (user IDs) come from the same partitions:'',
          ''- All messages for user-123 will come from the same partition'',
          ''- All messages for user-456 will come from the same partition'',
          ''- All messages for user-789 will come from the same partition'',
          ''- etc.'',
          []])"

definition consumer_main :: "consumer_world \<Rightarrow> exit \<times> effects" where
  "consumer_main w =
     (let topic = getEnv (cw_env w) ''KAFKA_TOPIC'' ''test-topic'';
          groupID = getEnv (cw_env w) ''KAFKA_GROUP_ID'' ''test-consumer-group'';
          log0 = consumer_banner w
      in case cw_connect_error w of
           Some err \<Rightarrow>
             (Exit 1, (log0 @ [''Failed to create consumer: failed to create consumer: '' @ err], []))
         | None \<Rightarrow>
             (case Consume \<lparr>topic = topic, groupID = groupID\<rparr>
                     (log0 @ [''Starting to consume messages...''], []) (cw_sessions w) of
                (Some err, eff) \<Rightarrow>
                  (Exit 1, (fst eff @ [''Error consuming messages: '' @ err], snd eff))
              | (None, eff) \<Rightarrow> (Waiting, eff)))"

section \<open>Comparing two runs of the summary routine\<close>

text \<open>
  Two map orders agree on a record when they rank its keys alike and, for every key,
  the partitions recorded for it alike. A record is single-valued when it has at most
  one key and at most one distinct partition for it: then there is only one order.
\<close>

definition same_order_on :: "partition_map \<Rightarrow> map_order \<Rightarrow> map_order \<Rightarrow> bool" where
  "same_order_on pm o1 o2 =
     ((\<forall>(k, ps)\<in>set pm. key_rank o1 k = key_rank o2 k) \<and>
      (\<forall>(k, ps)\<in>set pm. \<forall>p\<in>set ps. part_rank o1 k p = part_rank o2 k p))"

definition single_valued_record :: "partition_map \<Rightarrow> bool" where
  "single_valued_record pm = (length pm \<le> 1 \<and> (\<forall>(k, ps)\<in>set pm. length (remdups ps) \<le> 1))"

text \<open>
  The ranking that makes a range meet the keys in a given order \<open>ks\<close>: the position
  of a key in \<open>ks\<close>.
\<close>

definition rank_in :: "'a list \<Rightarrow> 'a \<Rightarrow> nat" where
  "rank_in ks k = (case map_of (zip ks [0..<length ks]) k of Some i \<Rightarrow> i | None \<Rightarrow> length ks)"

section \<open>Concrete runs\<close>

text \<open>
  The inputs at which the theorems below are evaluated. \<open>uneven_clock\<close> is a clock that
  advances by 5 and then by 15 nanoseconds between iterations. \<open>list_order\<close> ranks all keys
  alike, so a range visits them as they stand in the association list; \<open>other_order\<close>
  visits \<^verbatim>\<open>user-123\<close> last. \<open>seconds_stamp\<close> is a prefix of the logger's resolution:
  the whole seconds of the instant.
\<close>

definition uneven_clock :: "int \<Rightarrow> int" where
  "uneven_clock i = (if i = 0 then 0 else if i = 1 then 5 else 20)"

definition seconds_stamp :: "int \<Rightarrow> string" where
  "seconds_stamp now = fmt_d (now div 1000000000) @ '' ''"

definition list_order :: map_order where
  "list_order = \<lparr>key_rank = (\<lambda>k. 0), part_rank = (\<lambda>k p. 0)\<rparr>"

definition other_order :: map_order where
  "other_order = \<lparr>key_rank = (\<lambda>k. if k = ''user-123'' then 1 else 0), part_rank = (\<lambda>k p. 0)\<rparr>"

definition two_users :: partition_map where
  "two_users = [(''user-123'', [1, 1]), (''user-456'', [2])]"

definition cancelled_world :: producer_world where
  "cancelled_world =
     \<lparr>w_env = [''MESSAGE_COUNT'' \<mapsto> ''3''], w_dotenv_missing = False, w_connect_error = None,
      w_clock = (\<lambda>i. 0), w_encode = EventType, w_order = list_order,
      w_cases = [Tick (Delivered 1 0), CtxDone]\<rparr>"

definition msg :: "string \<Rightarrow> int32 \<Rightarrow> int64 \<Rightarrow> ConsumerMessage" where
  "msg k p off = \<lparr>Key = k, Value = ''v'', Partition = p, Offset = off\<rparr>"

definition max3_world :: consumer_world where
  "max3_world =
     \<lparr>cw_env = [''MAX_MESSAGES'' \<mapsto> ''3''], cw_dotenv_missing = False, cw_connect_error = None,
      cw_sessions =
        [\<lparr>s_claims = [(list_order,
             [Message (msg ''user-123'' 0 0), Message (msg ''user-123'' 0 1),
              Message (msg ''user-123'' 0 2), Message (msg ''user-123'' 0 3), SessionDone])],
          s_error = None, s_cancelled = True\<rparr>]\<rparr>"

definition two_session_world :: consumer_world where
  "two_session_world =
     \<lparr>cw_env = Map.empty, cw_dotenv_missing = False, cw_connect_error = None,
      cw_sessions =
        [\<lparr>s_claims = [(list_order, [Message (msg ''user-123'' 0 0), ChannelClosed])],
          s_error = None, s_cancelled = False\<rparr>,
         \<lparr>s_claims = [(list_order, [Message (msg ''user-123'' 0 1), SessionDone])],
          s_error = None, s_cancelled = True\<rparr>]\<rparr>"

definition two_claim_world :: consumer_world where
  "two_claim_world =
     \<lparr>cw_env = Map.empty, cw_dotenv_missing = False, cw_connect_error = None,
      cw_sessions =
        [\<lparr>s_claims = [(list_order, [Message (msg ''user-123'' 0 0), SessionDone]),
                      (list_order, [Message (msg ''user-456'' 1 0), SessionDone])],
          s_error = None, s_cancelled = True\<rparr>]\<rparr>"

definition zero_count_world :: "producer_case list \<Rightarrow> producer_world" where
  "zero_count_world cs =
     \<lparr>w_env = [''MESSAGE_COUNT'' \<mapsto> ''0''], w_dotenv_missing = False, w_connect_error = None,
      w_clock = (\<lambda>i. 0), w_encode = EventType, w_order = list_order, w_cases = cs\<rparr>"

definition demo_setup :: producer_setup where
  "demo_setup =
     \<lparr>p_topic = ''test-topic'', p_messageCount = 3, p_events = generateUserEvents (\<lambda>i. 0) 3,
      p_encode = EventType, p_order = list_order\<rparr>"

definition demo_state :: producer_state where
  "demo_state = \<lparr>p_count = 0, p_partitionMap = [], p_logged = [], p_sent = []\<rparr>"

section \<open>Properties of the event generator\<close>

lemma gen_loop_eq:
  "0 \<le> i \<Longrightarrow> gen_loop clock n i evs =
     evs @ map (\<lambda>k. event_at (clock (int k)) (int k)) [nat i..<nat n]"
proof (induction clock n i evs rule: gen_loop.induct)
  case (1 clock n i evs)
  show ?case
  proof (cases "i < n")
    case True
    with "1.prems" have "[nat i..<nat n] = nat i # [nat (i + 1)..<nat n]"
      by (simp add: upt_conv_Cons nat_add_distrib)
    with True "1.prems" "1.IH" show ?thesis
      by (subst gen_loop.simps) simp
  next
    case False
    with "1.prems" show ?thesis
      by (subst gen_loop.simps) simp
  qed
qed

lemma generateUserEvents_eq:
  "generateUserEvents clock n = map (\<lambda>k. event_at (clock (int k)) (int k)) [0..<nat n]"
  by (simp add: generateUserEvents_def gen_loop_eq)

lemma length_generateUserEvents: "length (generateUserEvents clock n) = nat n"
  by (simp add: generateUserEvents_eq)

lemma nth_generateUserEvents:
  "i < nat n \<Longrightarrow> generateUserEvents clock n ! i = event_at (clock (int i)) (int i)"
  by (simp add: generateUserEvents_eq)

lemma seconds_exact:
  assumes "0 \<le> i" and "i \<le> 9223372036"
  shows "seconds i = i * 1000000000"
proof -
  have "(word_of_int i :: int64) * Second = word_of_int (i * 1000000000)"
    by (simp add: Second_def)
  then have "seconds i = sint (word_of_int (i * 1000000000) :: int64)"
    by (simp only: seconds_def)
  also have "\<dots> = signed_take_bit 63 (i * 1000000000)"
    by (simp only: sint_sbintrunc') simp
  also have "\<dots> = i * 1000000000"
    using assms by (intro signed_take_bit_int_eq_self) simp_all
  finally show ?thesis .
qed

lemma UserID_event_at: "UserID (event_at now i) = users ! nat (i mod 3)"
  by (simp add: event_at_def Let_def users_def)

lemma EventType_event_at: "EventType (event_at now i) = eventTypes ! nat (i mod 6)"
  by (simp add: event_at_def Let_def eventTypes_def)

lemma Timestamp_event_at: "Timestamp (event_at now i) = now + seconds i"
  by (simp add: event_at_def Let_def Add_def)

lemma Data_event_at: "Data (event_at now i) = Data (event_at now' i)"
  by (simp add: event_at_def Let_def)

lemma generateUserEvents_eq_iff:
  "generateUserEvents c1 N = generateUserEvents c2 N \<longleftrightarrow> (\<forall>k<nat N. c1 (int k) = c2 (int k))"
proof
  assume eq: "generateUserEvents c1 N = generateUserEvents c2 N"
  show "\<forall>k<nat N. c1 (int k) = c2 (int k)"
  proof (intro allI impI)
    fix k assume k: "k < nat N"
    from eq have "Timestamp (generateUserEvents c1 N ! k) = Timestamp (generateUserEvents c2 N ! k)"
      by simp
    with k show "c1 (int k) = c2 (int k)"
      by (simp add: nth_generateUserEvents Timestamp_event_at)
  qed
next
  assume "\<forall>k<nat N. c1 (int k) = c2 (int k)"
  then show "generateUserEvents c1 N = generateUserEvents c2 N"
    by (simp add: generateUserEvents_eq)
qed

text \<open>
  C5. For every \<open>N \<ge> 0\<close> the generator returns exactly \<open>N\<close> events, and the event
  at index \<open>i < N\<close> has the user id \<open>users[i mod len(users)]\<close> and the event type
  \<open>eventTypes[i mod len(eventTypes)]\<close>, whatever the clock reads.
\<close>

theorem generateUserEvents_cycles:
  "0 \<le> N \<Longrightarrow>
   length (generateUserEvents clock N) = nat N \<and>
   (\<forall>i<nat N.
      UserID (generateUserEvents clock N ! i) = users ! (i mod length users) \<and>
      EventType (generateUserEvents clock N ! i) = eventTypes ! (i mod length eventTypes))"
  by (simp add: length_generateUserEvents nth_generateUserEvents UserID_event_at
      EventType_event_at nat_mod_distrib users_def eventTypes_def)

theorem generateUserEvents_cycles_witness:
  "(0::int) \<le> 8 \<and> length (generateUserEvents (\<lambda>i. 0) 8) = 8 \<and>
   UserID (generateUserEvents (\<lambda>i. 0) 8 ! 7) = ''user-456'' \<and>
   EventType (generateUserEvents (\<lambda>i. 0) 8 ! 7) = ''purchase''"
proof -
  have h: "(0::int) \<le> 8" by simp
  from generateUserEvents_cycles [OF h, of "\<lambda>i. 0"]
  have len: "length (generateUserEvents (\<lambda>i. 0) 8) = nat 8"
    and cyc: "\<forall>i<nat 8. UserID (generateUserEvents (\<lambda>i. 0) 8 ! i) = users ! (i mod length users) \<and>
      EventType (generateUserEvents (\<lambda>i. 0) 8 ! i) = eventTypes ! (i mod length eventTypes)"
    by blast+
  from cyc have "UserID (generateUserEvents (\<lambda>i. 0) 8 ! 7) = users ! (7 mod length users) \<and>
      EventType (generateUserEvents (\<lambda>i. 0) 8 ! 7) = eventTypes ! (7 mod length eventTypes)"
    by simp
  with len h show ?thesis by (simp add: users_def eventTypes_def)
qed

text \<open>
  C4 as stated fails: the generator reads the clock (\<^verbatim>\<open>time.Now()\<close>) for every event.
  Two calls with the same count, one made when the clock reads 0 and one when it reads
  1, give different sequences.
\<close>

theorem generateUserEvents_reads_clock_counterexample:
  "map Timestamp (generateUserEvents (\<lambda>i. 0) 1) = [0] \<and>
   map Timestamp (generateUserEvents (\<lambda>i. 1) 1) = [1] \<and>
   generateUserEvents (\<lambda>i. 0) 1 \<noteq> generateUserEvents (\<lambda>i. 1) 1"
proof -
  have a: "map Timestamp (generateUserEvents (\<lambda>i. 0) 1) = [0]"
    by (simp add: generateUserEvents_eq Timestamp_event_at seconds_def)
  have b: "map Timestamp (generateUserEvents (\<lambda>i. 1) 1) = [1]"
    by (simp add: generateUserEvents_eq Timestamp_event_at seconds_def)
  from a b have "generateUserEvents (\<lambda>i. 0) 1 \<noteq> generateUserEvents (\<lambda>i. 1) 1"
    by auto
  with a b show ?thesis by blast
qed

lemma Timestamp_generateUserEvents_exact:
  assumes "N \<le> 9223372037"
  shows "map Timestamp (generateUserEvents c N) =
           map (\<lambda>k. c (int k) + int k * 1000000000) [0..<nat N]"
proof -
  have "seconds (int k) = int k * 1000000000" if "k < nat N" for k
  proof -
    from that assms have "0 \<le> int k" "int k \<le> 9223372036" by linarith+
    then show ?thesis by (rule seconds_exact)
  qed
  then show ?thesis
    by (simp add: generateUserEvents_eq Timestamp_event_at)
qed

text \<open>
  C4, amended. Two calls with the same count \<open>N\<close> produce the same user ids, event
  types and attributes, position by position, whatever the clock reads. For
  \<open>N \<le> 9223372037\<close> the timestamp of event \<open>k\<close> is the clock reading taken when it
  is generated plus \<open>k\<close> seconds (beyond that bound the int64 product
  \<^verbatim>\<open>time.Duration(k) * time.Second\<close> wraps around, and the offset is the wrapped
  value). For every \<open>N\<close> the two sequences are identical exactly when the clock
  readings of the two calls agree.
\<close>

theorem generateUserEvents_same_but_for_clock:
  "map UserID (generateUserEvents c1 N) = map UserID (generateUserEvents c2 N) \<and>
   map EventType (generateUserEvents c1 N) = map EventType (generateUserEvents c2 N) \<and>
   map Data (generateUserEvents c1 N) = map Data (generateUserEvents c2 N) \<and>
   (N \<le> 9223372037 \<longrightarrow>
      map Timestamp (generateUserEvents c1 N) =
        map (\<lambda>k. c1 (int k) + int k * 1000000000) [0..<nat N]) \<and>
   map Timestamp (generateUserEvents c1 N) = map (\<lambda>k. c1 (int k) + seconds (int k)) [0..<nat N] \<and>
   (generateUserEvents c1 N = generateUserEvents c2 N \<longleftrightarrow> (\<forall>k<nat N. c1 (int k) = c2 (int k)))"
proof -
  have "map Data (generateUserEvents c1 N) = map Data (generateUserEvents c2 N)"
    using Data_event_at by (simp add: generateUserEvents_eq)
  moreover have "N \<le> 9223372037 \<longrightarrow>
      map Timestamp (generateUserEvents c1 N) =
        map (\<lambda>k. c1 (int k) + int k * 1000000000) [0..<nat N]"
    using Timestamp_generateUserEvents_exact [of N c1] by blast
  moreover have "map Timestamp (generateUserEvents c1 N) =
      map (\<lambda>k. c1 (int k) + seconds (int k)) [0..<nat N]"
    by (simp add: generateUserEvents_eq Timestamp_event_at)
  moreover have "map UserID (generateUserEvents c1 N) = map UserID (generateUserEvents c2 N)"
    by (simp add: generateUserEvents_eq UserID_event_at)
  moreover have "map EventType (generateUserEvents c1 N) = map EventType (generateUserEvents c2 N)"
    by (simp add: generateUserEvents_eq EventType_event_at)
  ultimately show ?thesis
    using generateUserEvents_eq_iff [of c1 N c2] by blast
qed

theorem generateUserEvents_same_but_for_clock_witness:
  "(2::int) \<le> 9223372037 \<and>
   map UserID (generateUserEvents (\<lambda>i. 0) 2) = map UserID (generateUserEvents (\<lambda>i. 1) 2) \<and>
   map EventType (generateUserEvents (\<lambda>i. 0) 2) = map EventType (generateUserEvents (\<lambda>i. 1) 2) \<and>
   map Data (generateUserEvents (\<lambda>i. 0) 2) = map Data (generateUserEvents (\<lambda>i. 1) 2) \<and>
   map Timestamp (generateUserEvents (\<lambda>i. 0) 2) = [0, 1000000000] \<and>
   generateUserEvents (\<lambda>i. 7) 2 = generateUserEvents (\<lambda>i. if i < 2 then 7 else 9) 2"
proof -
  have b: "(2::int) \<le> 9223372037" by simp
  have s: "map (\<lambda>k. (0::int) + int k * 1000000000) [0..<nat 2] = [0, 1000000000]"
    by (simp add: upt_rec numeral_2_eq_2)
  from generateUserEvents_same_but_for_clock [of "\<lambda>i. 0" 2 "\<lambda>i. 1"] b
  have t: "map Timestamp (generateUserEvents (\<lambda>i. 0) 2) =
      map (\<lambda>k. (0::int) + int k * 1000000000) [0..<nat 2]"
    by blast
  have "\<forall>k<nat 2. (\<lambda>i. 7::int) (int k) = (\<lambda>i::int. if i < 2 then 7 else 9) (int k)"
    by simp
  with generateUserEvents_same_but_for_clock [of "\<lambda>i. 7" 2 "\<lambda>i. if i < 2 then 7 else 9"]
  have e: "generateUserEvents (\<lambda>i. 7) 2 = generateUserEvents (\<lambda>i. if i < 2 then 7 else 9) 2"
    by blast
  from generateUserEvents_same_but_for_clock [of "\<lambda>i. 0" 2 "\<lambda>i. 1"]
  have "map UserID (generateUserEvents (\<lambda>i. 0) 2) = map UserID (generateUserEvents (\<lambda>i. 1) 2)"
    and "map EventType (generateUserEvents (\<lambda>i. 0) 2) = map EventType (generateUserEvents (\<lambda>i. 1) 2)"
    and "map Data (generateUserEvents (\<lambda>i. 0) 2) = map Data (generateUserEvents (\<lambda>i. 1) 2)"
    by blast+
  with b t s e show ?thesis by simp
qed

text \<open>
  C6 as stated fails: the step between consecutive timestamps is not one constant. With
  clock readings 0, 5 and 20 nanoseconds in the three iterations (\<open>uneven_clock\<close>), the
  two steps are 1000000005 and 1000000015 nanoseconds.
\<close>

theorem timestamp_step_counterexample:
  "Timestamp (generateUserEvents uneven_clock 3 ! 1) -
     Timestamp (generateUserEvents uneven_clock 3 ! 0) = 1000000005 \<and>
   Timestamp (generateUserEvents uneven_clock 3 ! 2) -
     Timestamp (generateUserEvents uneven_clock 3 ! 1) = 1000000015"
  by (simp add: nth_generateUserEvents Timestamp_event_at seconds_def Second_def uneven_clock_def)

text \<open>
  C6, amended. In a sequence of at most 9223372037 events (beyond that the int64
  product \<^verbatim>\<open>time.Duration(i) * time.Second\<close> wraps around), the timestamps of two
  consecutive events differ by one second plus the time the clock advanced between the
  two iterations; so they increase strictly when the clock does not run backwards, and
  the step is exactly one second when the clock reads the same instant in both.
\<close>

theorem timestamp_step:
  assumes "N \<le> 9223372037" and "Suc i < nat N"
  shows "Timestamp (generateUserEvents clock N ! Suc i) - Timestamp (generateUserEvents clock N ! i) =
           1000000000 + (clock (int (Suc i)) - clock (int i)) \<and>
         (clock (int i) \<le> clock (int (Suc i)) \<longrightarrow>
            Timestamp (generateUserEvents clock N ! i) < Timestamp (generateUserEvents clock N ! Suc i)) \<and>
         (clock (int (Suc i)) = clock (int i) \<longrightarrow>
            Timestamp (generateUserEvents clock N ! Suc i) =
              Timestamp (generateUserEvents clock N ! i) + 1000000000)"
proof -
  from assms have b: "int (Suc i) \<le> 9223372036" "int i \<le> 9223372036" by linarith+
  from assms have "i < nat N" by simp
  with assms(2) b show ?thesis
    by (simp add: nth_generateUserEvents Timestamp_event_at seconds_exact)
qed

theorem timestamp_step_witness:
  "(3::int) \<le> 9223372037 \<and> Suc 1 < nat 3 \<and>
   Timestamp (generateUserEvents uneven_clock 3 ! Suc 1) -
   Timestamp (generateUserEvents uneven_clock 3 ! 1) = 1000000015 \<and>
   Timestamp (generateUserEvents uneven_clock 3 ! 1) <
   Timestamp (generateUserEvents uneven_clock 3 ! Suc 1) \<and>
   Timestamp (generateUserEvents (\<lambda>i. 4) 3 ! Suc 1) =
     Timestamp (generateUserEvents (\<lambda>i. 4) 3 ! 1) + 1000000000"
proof -
  have h1: "(3::int) \<le> 9223372037" and h2: "Suc 1 < nat 3" by simp_all
  from timestamp_step [OF h1 h2, of uneven_clock]
       timestamp_step [OF h1 h2, of "\<lambda>i. 4"] h2
  show ?thesis by (simp add: uneven_clock_def)
qed

lemma seconds_wraps: "seconds 9223372037 = - 9223372036709551616"
  by (simp add: seconds_def Second_def)

section \<open>Properties of the configuration readers\<close>

lemma Atoi_Nil: "Atoi [] = None"
  by (simp add: Atoi_def)

lemma is_digit_digit_char: "d < 10 \<Longrightarrow> is_digit (digit_char d)"
  by (simp add: is_digit_def digit_char_def)

lemma digit_val_digit_char: "d < 10 \<Longrightarrow> digit_val (digit_char d) = int d"
  by (simp add: digit_val_def digit_char_def)

lemma dec_val_snoc: "dec_val n (cs @ [ch]) = dec_val n cs * 10 + digit_val ch"
  by (induction cs arbitrary: n) simp_all

lemma digits_not_Nil: "digits n \<noteq> []"
  by (subst digits.simps) simp

lemma digits_all_digit: "list_all is_digit (digits n)"
proof (induction n rule: digits.induct)
  case (1 n)
  then show ?case
    by (subst digits.simps) (simp add: is_digit_digit_char)
qed

lemma dec_val_digits: "dec_val 0 (digits n) = int n"
proof (induction n rule: digits.induct)
  case (1 n)
  show ?case
  proof (cases "n < 10")
    case True
    then show ?thesis by (subst digits.simps) (simp add: digit_val_digit_char)
  next
    case False
    with 1 have "dec_val 0 (digits (n div 10)) = int (n div 10)" by simp
    with False show ?thesis
      by (subst digits.simps) (simp add: dec_val_snoc digit_val_digit_char zdiv_int zmod_int)
  qed
qed

lemma hd_digits_digit: "is_digit (hd (digits n))"
  using digits_all_digit [of n] digits_not_Nil [of n]
  by (cases "digits n") simp_all

lemma sign_not_digit: "\<not> is_digit CHR ''-''" "\<not> is_digit CHR ''+''"
  by (simp_all add: is_digit_def)

lemma hd_digits_no_sign: "hd (digits n) \<noteq> CHR ''-''" "hd (digits n) \<noteq> CHR ''+''"
  using hd_digits_digit [of n] sign_not_digit by metis+

lemma Atoi_fmt_d:
  assumes "- (2 ^ 63) \<le> n" and "n < 2 ^ 63"
  shows "Atoi (fmt_d n) = Some n"
proof (cases "n < 0")
  case True
  with assms show ?thesis
    by (simp add: Atoi_def fmt_d_def digits_not_Nil digits_all_digit dec_val_digits)
next
  case False
  with assms show ?thesis
    by (simp add: Atoi_def fmt_d_def digits_not_Nil digits_all_digit dec_val_digits
        hd_digits_no_sign)
qed

lemma fmt_d_not_Nil: "fmt_d n \<noteq> []"
  by (simp add: fmt_d_def digits_not_Nil)

lemma getEnvAsInt_unset: "env key = None \<Longrightarrow> getEnvAsInt env key d = d"
  by (simp add: getEnvAsInt_def Getenv_def)

lemma getEnvAsInt_empty: "env key = Some [] \<Longrightarrow> getEnvAsInt env key d = d"
  by (simp add: getEnvAsInt_def Getenv_def)

lemma getEnvAsInt_unparsable: "env key = Some v \<Longrightarrow> Atoi v = None \<Longrightarrow> getEnvAsInt env key d = d"
  by (simp add: getEnvAsInt_def Getenv_def Let_def)

lemma getEnvAsInt_parsed: "env key = Some v \<Longrightarrow> Atoi v = Some n \<Longrightarrow> getEnvAsInt env key d = n"
  by (cases "v = []") (simp_all add: getEnvAsInt_def Getenv_def Let_def Atoi_Nil)

text \<open>
  C10. \<^verbatim>\<open>getEnvAsInt\<close>, through which MESSAGE_COUNT, MESSAGE_INTERVAL_MS and
  MAX_MESSAGES are read: a variable that is unset, empty, or does not parse as an
  integer gives the default, and the function has no other result than the integer (no
  error, no log line); a value that parses is returned as it is. Every int64, negative
  ones included, written in decimal, parses to itself.
\<close>

theorem getEnvAsInt_default_or_parsed:
  "(env key = None \<longrightarrow> getEnvAsInt env key d = d) \<and>
   (env key = Some [] \<longrightarrow> getEnvAsInt env key d = d) \<and>
   (env key = Some v \<and> Atoi v = None \<longrightarrow> getEnvAsInt env key d = d) \<and>
   (env key = Some v \<and> Atoi v = Some n \<longrightarrow> getEnvAsInt env key d = n) \<and>
   (env key = Some (fmt_d m) \<and> - (2 ^ 63) \<le> m \<and> m < 2 ^ 63 \<longrightarrow> getEnvAsInt env key d = m)"
proof (intro conjI impI)
  assume "env key = Some (fmt_d m) \<and> - (2 ^ 63) \<le> m \<and> m < 2 ^ 63"
  then show "getEnvAsInt env key d = m"
    using getEnvAsInt_parsed [of env key "fmt_d m" m d] Atoi_fmt_d [of m] by blast
qed (simp_all add: getEnvAsInt_unset getEnvAsInt_empty getEnvAsInt_unparsable getEnvAsInt_parsed)

theorem getEnvAsInt_default_or_parsed_witness:
  "getEnvAsInt Map.empty ''MESSAGE_COUNT'' 20 = 20 \<and>
   getEnvAsInt [''MESSAGE_INTERVAL_MS'' \<mapsto> ''''] ''MESSAGE_INTERVAL_MS'' 500 = 500 \<and>
   getEnvAsInt [''MAX_MESSAGES'' \<mapsto> ''ten''] ''MAX_MESSAGES'' 0 = 0 \<and>
   getEnvAsInt [''MESSAGE_COUNT'' \<mapsto> ''-5''] ''MESSAGE_COUNT'' 20 = - 5 \<and>
   getEnvAsInt [''MESSAGE_COUNT'' \<mapsto> ''7''] ''MESSAGE_COUNT'' 20 = 7"
proof -
  have a: "Atoi ''ten'' = None" by code_simp
  have b: "Atoi ''-5'' = Some (- 5)" by code_simp
  have c: "fmt_d 7 = ''7''" by code_simp
  have r: "- (2 ^ 63) \<le> (7::int) \<and> (7::int) < 2 ^ 63" by simp
  from getEnvAsInt_default_or_parsed [of Map.empty "''MESSAGE_COUNT''" 20 "[]" 0 0]
  have 1: "getEnvAsInt Map.empty ''MESSAGE_COUNT'' 20 = 20" by simp
  from getEnvAsInt_default_or_parsed [of "[''MESSAGE_INTERVAL_MS'' \<mapsto> '''']" "''MESSAGE_INTERVAL_MS''" 500 "[]" 0 0]
  have 2: "getEnvAsInt [''MESSAGE_INTERVAL_MS'' \<mapsto> ''''] ''MESSAGE_INTERVAL_MS'' 500 = 500" by simp
  from getEnvAsInt_default_or_parsed [of "[''MAX_MESSAGES'' \<mapsto> ''ten'']" "''MAX_MESSAGES''" 0 "''ten''" 0 0] a
  have 3: "getEnvAsInt [''MAX_MESSAGES'' \<mapsto> ''ten''] ''MAX_MESSAGES'' 0 = 0" by simp
  from getEnvAsInt_default_or_parsed [of "[''MESSAGE_COUNT'' \<mapsto> ''-5'']" "''MESSAGE_COUNT''" 20 "''-5''" "- 5" 0] b
  have 4: "getEnvAsInt [''MESSAGE_COUNT'' \<mapsto> ''-5''] ''MESSAGE_COUNT'' 20 = - 5" by simp
  from getEnvAsInt_default_or_parsed [of "[''MESSAGE_COUNT'' \<mapsto> ''7'']" "''MESSAGE_COUNT''" 20 "[]" 0 7] c r
  have 5: "getEnvAsInt [''MESSAGE_COUNT'' \<mapsto> ''7''] ''MESSAGE_COUNT'' 20 = 7" by simp
  from 1 2 3 4 5 show ?thesis by blast
qed

section \<open>Properties of the summary routines\<close>

lemma insort_key_cong_on:
  "f x = g x \<Longrightarrow> \<forall>y\<in>set ys. f y = g y \<Longrightarrow> insort_key f x ys = insort_key g x ys"
  by (induction ys) simp_all

lemma sort_key_cong_on:
  "\<forall>x\<in>set xs. f x = g x \<Longrightarrow> sort_key f xs = sort_key g xs"
proof (induction xs)
  case Nil
  then show ?case by simp
next
  case (Cons x xs)
  then have ih: "sort_key f xs = sort_key g xs" by simp
  from Cons.prems have "f x = g x" and "\<forall>y\<in>set (sort_key g xs). f y = g y" by simp_all
  then have "insort_key f x (sort_key g xs) = insort_key g x (sort_key g xs)"
    by (rule insort_key_cong_on)
  with ih show ?case by simp
qed

lemma sort_key_short: "length xs \<le> 1 \<Longrightarrow> sort_key f xs = xs"
  by (cases xs) simp_all

lemma mset_range_keys: "mset (range_keys ord pm) = mset (map fst pm)"
  by (simp add: range_keys_def)

lemma mset_unique_parts: "mset (unique_parts ord k ps) = mset (remdups ps)"
  by (simp add: unique_parts_def)

lemma length_showPartitionSummary: "length (showPartitionSummary ord pm) = length pm + 3"
  by (simp add: showPartitionSummary_def range_keys_def)

lemma length_showProducerPartitionSummary: "length (showProducerPartitionSummary ord pm) = length pm + 3"
  by (simp add: showProducerPartitionSummary_def range_keys_def)

lemma lookup_in:
  assumes "(k, ps) \<in> set pm"
  shows "\<exists>qs. (k, qs) \<in> set pm \<and> lookup pm k = qs"
proof -
  from assms have "k \<in> fst ` set pm" by force
  then have "map_of pm k \<noteq> None" by (simp add: map_of_eq_None_iff)
  then obtain qs where q: "map_of pm k = Some qs" by blast
  then have "(k, qs) \<in> set pm" by (rule map_of_SomeD)
  with q show ?thesis by (simp add: lookup_def)
qed

lemma range_keys_same: "same_order_on pm o1 o2 \<Longrightarrow> range_keys o1 pm = range_keys o2 pm"
  unfolding range_keys_def same_order_on_def
  by (rule sort_key_cong_on) auto

lemma unique_parts_same:
  assumes "same_order_on pm o1 o2" and "k \<in> fst ` set pm"
  shows "unique_parts o1 k (lookup pm k) = unique_parts o2 k (lookup pm k)"
proof -
  from assms(2) obtain ps where "(k, ps) \<in> set pm" by auto
  from lookup_in [OF this] obtain qs where "(k, qs) \<in> set pm" "lookup pm k = qs" by blast
  with assms(1) have "\<forall>p\<in>set (remdups (lookup pm k)). part_rank o1 k p = part_rank o2 k p"
    by (auto simp: same_order_on_def)
  then show ?thesis
    unfolding unique_parts_def by (rule sort_key_cong_on)
qed

lemma consumer_row_cong:
  "unique_parts o1 k (lookup pm k) = unique_parts o2 k (lookup pm k) \<Longrightarrow>
   consumer_row o1 pm k = consumer_row o2 pm k"
  by (simp only: consumer_row_def Let_def)

lemma producer_row_cong:
  "unique_parts o1 k (lookup pm k) = unique_parts o2 k (lookup pm k) \<Longrightarrow>
   producer_row o1 pm k = producer_row o2 pm k"
  by (simp only: producer_row_def Let_def)

lemma rows_same:
  assumes "same_order_on pm o1 o2"
  shows "map (consumer_row o1 pm) (range_keys o1 pm) = map (consumer_row o2 pm) (range_keys o2 pm)"
    and "map (producer_row o1 pm) (range_keys o1 pm) = map (producer_row o2 pm) (range_keys o2 pm)"
proof -
  have keys: "range_keys o1 pm = range_keys o2 pm"
    using assms by (rule range_keys_same)
  have u: "\<And>k. k \<in> set (range_keys o2 pm) \<Longrightarrow>
      unique_parts o1 k (lookup pm k) = unique_parts o2 k (lookup pm k)"
    using unique_parts_same [OF assms] by (simp add: range_keys_def)
  show "map (consumer_row o1 pm) (range_keys o1 pm) = map (consumer_row o2 pm) (range_keys o2 pm)"
    unfolding keys by (rule map_cong [OF refl]) (rule consumer_row_cong, rule u)
  show "map (producer_row o1 pm) (range_keys o1 pm) = map (producer_row o2 pm) (range_keys o2 pm)"
    unfolding keys by (rule map_cong [OF refl]) (rule producer_row_cong, rule u)
qed

lemma single_rows:
  assumes "single_valued_record pm"
  shows "map (consumer_row o1 pm) (range_keys o1 pm) = map (consumer_row o2 pm) (range_keys o2 pm)"
    and "map (producer_row o1 pm) (range_keys o1 pm) = map (producer_row o2 pm) (range_keys o2 pm)"
proof -
  from assms have keys: "range_keys o1 pm = range_keys o2 pm"
    by (simp add: range_keys_def single_valued_record_def sort_key_short)
  have u: "\<And>k. k \<in> set (range_keys o2 pm) \<Longrightarrow>
      unique_parts o1 k (lookup pm k) = unique_parts o2 k (lookup pm k)"
  proof -
    fix k assume "k \<in> set (range_keys o2 pm)"
    then obtain ps where "(k, ps) \<in> set pm" by (auto simp: range_keys_def)
    from lookup_in [OF this] obtain qs where "(k, qs) \<in> set pm" "lookup pm k = qs" by blast
    with assms have "length (remdups (lookup pm k)) \<le> 1"
      by (auto simp: single_valued_record_def)
    then show "unique_parts o1 k (lookup pm k) = unique_parts o2 k (lookup pm k)"
      by (simp add: unique_parts_def sort_key_short)
  qed
  show "map (consumer_row o1 pm) (range_keys o1 pm) = map (consumer_row o2 pm) (range_keys o2 pm)"
    unfolding keys by (rule map_cong [OF refl]) (rule consumer_row_cong, rule u)
  show "map (producer_row o1 pm) (range_keys o1 pm) = map (producer_row o2 pm) (range_keys o2 pm)"
    unfolding keys by (rule map_cong [OF refl]) (rule producer_row_cong, rule u)
qed

lemma take2_showPartitionSummary: "take 2 (showPartitionSummary ord pm) = [[], summary_header]"
  by (simp add: showPartitionSummary_def)

lemma take2_showProducerPartitionSummary:
  "take 2 (showProducerPartitionSummary ord pm) = [[], summary_header]"
  by (simp add: showProducerPartitionSummary_def)

lemma last_showPartitionSummary: "last (showPartitionSummary ord pm) = replicate 37 CHR ''=''"
  by (simp add: showPartitionSummary_def numeral_eq_Suc)

lemma last_showProducerPartitionSummary:
  "last (showProducerPartitionSummary ord pm) = replicate 38 CHR ''=''"
  by (simp add: showProducerPartitionSummary_def numeral_eq_Suc)

lemma summaries_equal:
  assumes "same_order_on pm o1 o2 \<or> single_valued_record pm"
  shows "showPartitionSummary o1 pm = showPartitionSummary o2 pm"
    and "showProducerPartitionSummary o1 pm = showProducerPartitionSummary o2 pm"
proof -
  from assms have
    "map (consumer_row o1 pm) (range_keys o1 pm) = map (consumer_row o2 pm) (range_keys o2 pm) \<and>
     map (producer_row o1 pm) (range_keys o1 pm) = map (producer_row o2 pm) (range_keys o2 pm)"
    using rows_same [of pm o1 o2] single_rows [of pm o1 o2] by blast
  then show "showPartitionSummary o1 pm = showPartitionSummary o2 pm"
    and "showProducerPartitionSummary o1 pm = showProducerPartitionSummary o2 pm"
    by (simp_all only: showPartitionSummary_def showProducerPartitionSummary_def)
qed

text \<open>
  The rankings lose no order: every arrangement of the keys of the record, and every
  arrangement of the distinct partitions of a key, is met under some ranking.
\<close>

lemma rank_in_nth: "distinct ks \<Longrightarrow> i < length ks \<Longrightarrow> rank_in ks (ks ! i) = i"
  by (simp add: rank_in_def map_of_zip_nth)

lemma map_rank_in: "distinct ks \<Longrightarrow> map (rank_in ks) ks = [0..<length ks]"
  by (rule nth_equalityI) (simp_all add: rank_in_nth)

lemma rank_in_inj:
  assumes "distinct ks" "x \<in> set ks" "y \<in> set ks" "rank_in ks x = rank_in ks y"
  shows "x = y"
proof -
  from assms(2,3) obtain i j where "i < length ks" "ks ! i = x" "j < length ks" "ks ! j = y"
    by (auto simp: in_set_conv_nth)
  with assms(1,4) show ?thesis using rank_in_nth [of ks] by metis
qed

lemma filter_eq_distinct: "distinct xs \<Longrightarrow> k \<in> set xs \<Longrightarrow> filter (\<lambda>x. k = x) xs = [k]"
  by (induction xs) (auto simp: filter_empty_conv)

lemma filter_rank_in:
  assumes "distinct ks" "distinct xs" "set xs = set ks" "k \<in> set ks"
  shows "filter (\<lambda>x. rank_in ks k = rank_in ks x) xs = [k]"
proof -
  have "filter (\<lambda>x. rank_in ks k = rank_in ks x) xs = filter (\<lambda>x. k = x) xs"
    using assms rank_in_inj [of ks k] by (intro filter_cong) auto
  also have "\<dots> = [k]"
    using assms(2,3,4) by (simp add: filter_eq_distinct)
  finally show ?thesis .
qed

lemma sort_key_rank_in:
  assumes "distinct ks" "mset ks = mset xs"
  shows "sort_key (rank_in ks) xs = ks"
proof (rule properties_for_sort_key)
  show "mset ks = mset xs" by fact
  from assms have d: "distinct xs" and s: "set xs = set ks"
    by (metis mset_eq_imp_distinct_iff, metis mset_eq_setD)
  show "filter (\<lambda>x. rank_in ks k = rank_in ks x) ks = filter (\<lambda>x. rank_in ks k = rank_in ks x) xs"
    if "k \<in> set ks" for k
    using that assms(1) d s by (simp add: filter_rank_in)
  show "sorted (map (rank_in ks) ks)"
    using assms(1) by (simp add: map_rank_in)
qed


lemma range_keys_any_order:
  "distinct ks \<Longrightarrow> mset ks = mset (map fst pm) \<Longrightarrow>
   range_keys \<lparr>key_rank = rank_in ks, part_rank = pr\<rparr> pm = ks"
  by (simp add: range_keys_def sort_key_rank_in)

lemma unique_parts_any_order:
  assumes "distinct us" and "set us = set ps"
  shows "unique_parts \<lparr>key_rank = kr, part_rank = (\<lambda>k. rank_in us)\<rparr> userID ps = us"
proof -
  from assms have "mset us = mset (remdups ps)"
    by (simp add: set_eq_iff_mset_eq_distinct [symmetric])
  with assms(1) show ?thesis
    by (simp add: unique_parts_def sort_key_rank_in)
qed

lemma mset_rows:
  "mset (map (\<lambda>k. (k, length (lookup pm k), mset (unique_parts o1 k (lookup pm k)))) (range_keys o1 pm)) =
   mset (map (\<lambda>k. (k, length (lookup pm k), mset (unique_parts o2 k (lookup pm k)))) (range_keys o2 pm))"
  by (simp only: mset_map mset_range_keys mset_unique_parts)

lemma length_written_from: "length (written_from stamp clock i ms) = length ms"
  by (induction ms arbitrary: i) simp_all

lemma nth_written_from:
  "j < length ms \<Longrightarrow> written_from stamp clock i ms ! j = stamp (clock (i + j)) @ ms ! j"
proof (induction ms arbitrary: i j)
  case Nil
  then show ?case by simp
next
  case (Cons m ms)
  show ?case
  proof (cases j)
    case 0
    then show ?thesis by (simp add: Printf_def)
  next
    case (Suc j')
    with Cons.prems have "j' < length ms" by simp
    from Cons.IH [OF this, of "Suc i"] Suc show ?thesis by simp
  qed
qed

lemma length_log_written: "length (log_written stamp clock ms) = length ms"
  by (simp add: log_written_def length_written_from)

lemma nth_log_written:
  "j < length ms \<Longrightarrow> log_written stamp clock ms ! j = stamp (clock j) @ ms ! j"
  by (simp add: log_written_def nth_written_from)

lemma log_written_cong:
  assumes "ms1 = ms2" and "\<forall>j<length ms1. stamp (t1 j) = stamp (t2 j)"
  shows "log_written stamp t1 ms1 = log_written stamp t2 ms2"
  using assms by (intro nth_equalityI) (simp_all add: length_log_written nth_log_written)

lemma showPartitionSummary_lines:
  "showPartitionSummary ord pm =
     [[], ''=== Partition Distribution Summary ===''] @
     map (\<lambda>k. ''User '' @ k @ '': '' @ fmt_d (int (length (lookup pm k))) @
               '' messages all came from partition(s) '' @
               fmt_v_int32s (unique_parts ord k (lookup pm k)))
         (range_keys ord pm) @
     [''=====================================''] "
  unfolding showPartitionSummary_def summary_header_def
  by (simp add: consumer_row_def [abs_def] Let_def)

lemma showProducerPartitionSummary_lines:
  "showProducerPartitionSummary ord pm =
     [[], ''=== Partition Distribution Summary ===''] @
     map (\<lambda>k. ''User '' @ k @ '': '' @ fmt_d (int (length (lookup pm k))) @
               '' messages all went to partition(s) '' @
               fmt_v_int32s (unique_parts ord k (lookup pm k)))
         (range_keys ord pm) @
     [''======================================''] "
  unfolding showProducerPartitionSummary_def summary_header_def
  by (simp add: producer_row_def [abs_def] Let_def)


lemma lookup_entry: "distinct (map fst pm) \<Longrightarrow> (k, ps) \<in> set pm \<Longrightarrow> lookup pm k = ps"
  by (simp add: lookup_def)

lemma summaries_written_equal:
  assumes "same_order_on pm o1 o2 \<or> single_valued_record pm"
    and "\<forall>j<length pm + 3. stamp (t1 j) = stamp (t2 j)"
  shows "log_written stamp t1 (showPartitionSummary o1 pm) =
           log_written stamp t2 (showPartitionSummary o2 pm)"
    and "log_written stamp t1 (showProducerPartitionSummary o1 pm) =
           log_written stamp t2 (showProducerPartitionSummary o2 pm)"
proof -
  from assms(2) have "\<forall>j<length (showPartitionSummary o1 pm). stamp (t1 j) = stamp (t2 j)"
    by (simp only: length_showPartitionSummary)
  with summaries_equal(1) [OF assms(1)]
  show "log_written stamp t1 (showPartitionSummary o1 pm) =
           log_written stamp t2 (showPartitionSummary o2 pm)"
    by (rule log_written_cong)
  from assms(2) have "\<forall>j<length (showProducerPartitionSummary o1 pm). stamp (t1 j) = stamp (t2 j)"
    by (simp only: length_showProducerPartitionSummary)
  with summaries_equal(2) [OF assms(1)]
  show "log_written stamp t1 (showProducerPartitionSummary o1 pm) =
           log_written stamp t2 (showProducerPartitionSummary o2 pm)"
    by (rule log_written_cong)
qed

text \<open>
  C7 as stated fails: the routine ranges over Go maps, whose iteration order is not
  fixed from one loop to the next. On the same record with two users, a call that meets
  one order and a call that meets the other print the two user lines in different
  order.
\<close>

theorem summary_order_counterexample:
  "showPartitionSummary list_order two_users =
     [[], ''=== Partition Distribution Summary ==='',
      ''User user-123: 2 messages all came from partition(s) [1]'',
      ''User user-456: 1 messages all came from partition(s) [2]'',
      ''=====================================''] \<and>
   showPartitionSummary other_order two_users =
     [[], ''=== Partition Distribution Summary ==='',
      ''User user-456: 1 messages all came from partition(s) [2]'',
      ''User user-123: 2 messages all came from partition(s) [1]'',
      ''=====================================''] \<and>
   showPartitionSummary list_order two_users \<noteq> showPartitionSummary other_order two_users"
  by code_simp

text \<open>
  C7, amended. A call of the summary routine (the consumer's or the producer's) logs a
  blank line, the header, one line for each key of the record, and the footer; the line
  of a key shows the key, the number of partitions recorded for it and its distinct
  partitions, each once. Two calls on the same record agree in all of this (as
  multisets, the keys with these contents agree), and differ at most in the order of
  the per-key lines and of the partitions within a line, which is the order each call
  meets when ranging over the maps, and in the date and time the logger writes before
  every line. The messages are identical when both calls meet the same order, and
  always when the record has at most one key with at most one distinct partition; the
  written lines are identical when, in addition, the logger's prefixes agree line by
  line.
\<close>

theorem summary_same_up_to_map_order:
  "showPartitionSummary o1 pm =
     [[], ''=== Partition Distribution Summary ===''] @
     map (\<lambda>k. ''User '' @ k @ '': '' @ fmt_d (int (length (lookup pm k))) @
               '' messages all came from partition(s) '' @
               fmt_v_int32s (unique_parts o1 k (lookup pm k)))
         (range_keys o1 pm) @
     [''====================================='']  \<and>
   showProducerPartitionSummary o1 pm =
     [[], ''=== Partition Distribution Summary ===''] @
     map (\<lambda>k. ''User '' @ k @ '': '' @ fmt_d (int (length (lookup pm k))) @
               '' messages all went to partition(s) '' @
               fmt_v_int32s (unique_parts o1 k (lookup pm k)))
         (range_keys o1 pm) @
     [''======================================'']  \<and>
   mset (range_keys o1 pm) = mset (map fst pm) \<and>
   mset (unique_parts o1 k ps) = mset (remdups ps) \<and>
   (distinct (map fst pm) \<and> (k, ps) \<in> set pm \<longrightarrow> lookup pm k = ps) \<and>
   length (showPartitionSummary o1 pm) = length (showPartitionSummary o2 pm) \<and>
   length (showProducerPartitionSummary o1 pm) = length (showProducerPartitionSummary o2 pm) \<and>
   mset (map (\<lambda>k. (k, length (lookup pm k), mset (unique_parts o1 k (lookup pm k)))) (range_keys o1 pm)) =
   mset (map (\<lambda>k. (k, length (lookup pm k), mset (unique_parts o2 k (lookup pm k)))) (range_keys o2 pm)) \<and>
   length (log_written stamp t1 (showPartitionSummary o1 pm)) = length pm + 3 \<and>
   length (log_written stamp t1 (showProducerPartitionSummary o1 pm)) = length pm + 3 \<and>
   (\<forall>j<length pm + 3.
      log_written stamp t1 (showPartitionSummary o1 pm) ! j =
        stamp (t1 j) @ showPartitionSummary o1 pm ! j \<and>
      log_written stamp t1 (showProducerPartitionSummary o1 pm) ! j =
        stamp (t1 j) @ showProducerPartitionSummary o1 pm ! j) \<and>
   (same_order_on pm o1 o2 \<or> single_valued_record pm \<longrightarrow>
      showPartitionSummary o1 pm = showPartitionSummary o2 pm \<and>
      showProducerPartitionSummary o1 pm = showProducerPartitionSummary o2 pm) \<and>
   ((same_order_on pm o1 o2 \<or> single_valued_record pm) \<and>
    (\<forall>j<length pm + 3. stamp (t1 j) = stamp (t2 j)) \<longrightarrow>
      log_written stamp t1 (showPartitionSummary o1 pm) =
        log_written stamp t2 (showPartitionSummary o2 pm) \<and>
      log_written stamp t1 (showProducerPartitionSummary o1 pm) =
        log_written stamp t2 (showProducerPartitionSummary o2 pm))"
proof (intro conjI impI allI)
  show "showPartitionSummary o1 pm =
     [[], ''=== Partition Distribution Summary ===''] @
     map (\<lambda>k. ''User '' @ k @ '': '' @ fmt_d (int (length (lookup pm k))) @
               '' messages all came from partition(s) '' @
               fmt_v_int32s (unique_parts o1 k (lookup pm k)))
         (range_keys o1 pm) @
     [''=====================================''] "
    by (rule showPartitionSummary_lines)
  show "showProducerPartitionSummary o1 pm =
     [[], ''=== Partition Distribution Summary ===''] @
     map (\<lambda>k. ''User '' @ k @ '': '' @ fmt_d (int (length (lookup pm k))) @
               '' messages all went to partition(s) '' @
               fmt_v_int32s (unique_parts o1 k (lookup pm k)))
         (range_keys o1 pm) @
     [''======================================''] "
    by (rule showProducerPartitionSummary_lines)
  show "mset (range_keys o1 pm) = mset (map fst pm)"
    by (rule mset_range_keys)
  show "mset (unique_parts o1 k ps) = mset (remdups ps)"
    by (rule mset_unique_parts)
  show "lookup pm k = ps" if "distinct (map fst pm) \<and> (k, ps) \<in> set pm"
    using that lookup_entry by blast
  show "length (showPartitionSummary o1 pm) = length (showPartitionSummary o2 pm)"
    by (simp only: length_showPartitionSummary)
  show "length (showProducerPartitionSummary o1 pm) = length (showProducerPartitionSummary o2 pm)"
    by (simp only: length_showProducerPartitionSummary)
  show "mset (map (\<lambda>k. (k, length (lookup pm k), mset (unique_parts o1 k (lookup pm k)))) (range_keys o1 pm)) =
   mset (map (\<lambda>k. (k, length (lookup pm k), mset (unique_parts o2 k (lookup pm k)))) (range_keys o2 pm))"
    by (rule mset_rows)
  show "length (log_written stamp t1 (showPartitionSummary o1 pm)) = length pm + 3"
    by (simp only: length_log_written length_showPartitionSummary)
  show "length (log_written stamp t1 (showProducerPartitionSummary o1 pm)) = length pm + 3"
    by (simp only: length_log_written length_showProducerPartitionSummary)
  show "log_written stamp t1 (showPartitionSummary o1 pm) ! j =
        stamp (t1 j) @ showPartitionSummary o1 pm ! j" if "j < length pm + 3" for j
    using that by (intro nth_log_written) (simp only: length_showPartitionSummary)
  show "log_written stamp t1 (showProducerPartitionSummary o1 pm) ! j =
        stamp (t1 j) @ showProducerPartitionSummary o1 pm ! j" if "j < length pm + 3" for j
    using that by (intro nth_log_written) (simp only: length_showProducerPartitionSummary)
next
  assume a: "same_order_on pm o1 o2 \<or> single_valued_record pm"
  then show "showPartitionSummary o1 pm = showPartitionSummary o2 pm"
    by (rule summaries_equal)
  from a show "showProducerPartitionSummary o1 pm = showProducerPartitionSummary o2 pm"
    by (rule summaries_equal)
next
  assume a: "(same_order_on pm o1 o2 \<or> single_valued_record pm) \<and>
    (\<forall>j<length pm + 3. stamp (t1 j) = stamp (t2 j))"
  then show "log_written stamp t1 (showPartitionSummary o1 pm) =
        log_written stamp t2 (showPartitionSummary o2 pm)"
    using summaries_written_equal(1) [of pm o1 o2 stamp t1 t2] by blast
  from a show "log_written stamp t1 (showProducerPartitionSummary o1 pm) =
        log_written stamp t2 (showProducerPartitionSummary o2 pm)"
    using summaries_written_equal(2) [of pm o1 o2 stamp t1 t2] by blast
qed

theorem summary_same_up_to_map_order_witness:
  "single_valued_record [(''user-123'', [1, 1])] \<and>
   seconds_stamp 5 = seconds_stamp 7 \<and>
   showPartitionSummary list_order [(''user-123'', [1, 1])] =
     showPartitionSummary other_order [(''user-123'', [1, 1])] \<and>
   log_written seconds_stamp (\<lambda>i. 5) (showPartitionSummary list_order [(''user-123'', [1, 1])]) =
     log_written seconds_stamp (\<lambda>i. 7) (showPartitionSummary other_order [(''user-123'', [1, 1])]) \<and>
   log_written seconds_stamp (\<lambda>i. 5) (showProducerPartitionSummary list_order [(''user-123'', [1, 1])]) =
     log_written seconds_stamp (\<lambda>i. 7) (showProducerPartitionSummary other_order [(''user-123'', [1, 1])]) \<and>
   log_written seconds_stamp (\<lambda>i. 5) (showPartitionSummary list_order [(''user-123'', [1, 1])]) =
     [''0 '', ''0 === Partition Distribution Summary ==='',
      ''0 User user-123: 2 messages all came from partition(s) [1]'',
      ''0 =====================================''] \<and>
   length (showPartitionSummary list_order two_users) =
     length (showPartitionSummary other_order two_users) \<and>
   mset (range_keys other_order two_users) = mset (map fst two_users)"
proof -
  have s: "single_valued_record [(''user-123'', [1, 1])]"
    by (simp add: single_valued_record_def)
  have e: "seconds_stamp 5 = seconds_stamp 7"
    by code_simp
  then have st: "\<forall>j<length [(''user-123'', [1::int32, 1])] + 3.
      seconds_stamp ((\<lambda>i::nat. 5) j) = seconds_stamp ((\<lambda>i::nat. 7) j)"
    by simp
  have w: "log_written seconds_stamp (\<lambda>i. 5) (showPartitionSummary list_order [(''user-123'', [1, 1])]) =
     [''0 '', ''0 === Partition Distribution Summary ==='',
      ''0 User user-123: 2 messages all came from partition(s) [1]'',
      ''0 =====================================''] "
    by code_simp
  from summary_same_up_to_map_order
    [of list_order "[(''user-123'', [1, 1])]" "''user-123''" "[1, 1]" other_order
        seconds_stamp "\<lambda>i. 5" "\<lambda>i. 7"] s st
  have "showPartitionSummary list_order [(''user-123'', [1, 1])] =
          showPartitionSummary other_order [(''user-123'', [1, 1])]"
    and "log_written seconds_stamp (\<lambda>i. 5) (showPartitionSummary list_order [(''user-123'', [1, 1])]) =
     log_written seconds_stamp (\<lambda>i. 7) (showPartitionSummary other_order [(''user-123'', [1, 1])])"
    and "log_written seconds_stamp (\<lambda>i. 5) (showProducerPartitionSummary list_order [(''user-123'', [1, 1])]) =
     log_written seconds_stamp (\<lambda>i. 7) (showProducerPartitionSummary other_order [(''user-123'', [1, 1])])"
    by blast+
  moreover from summary_same_up_to_map_order
    [of list_order two_users "''user-123''" "[1, 1]" other_order seconds_stamp "\<lambda>i. 5" "\<lambda>i. 7"]
  have "length (showPartitionSummary list_order two_users) =
     length (showPartitionSummary other_order two_users)"
    by blast
  moreover from summary_same_up_to_map_order
    [of other_order two_users "''user-123''" "[1, 1]" list_order seconds_stamp "\<lambda>i. 5" "\<lambda>i. 7"]
  have "mset (range_keys other_order two_users) = mset (map fst two_users)"
    by blast
  ultimately show ?thesis using s e w by blast
qed

section \<open>Properties of the producer's main loop\<close>

lemma producer_loop_cancel:
  "producer_loop cfg s (CtxDone # cs) =
     Return (s\<lparr>p_logged := p_logged s @ [''Producer stopped'']\<rparr>)"
  by (simp add: producer_select_def)

lemma producer_select_CtxDone:
  "producer_select cfg s CtxDone = Return (s\<lparr>p_logged := p_logged s @ [''Producer stopped'']\<rparr>)"
  by (simp add: producer_select_def)

lemma producer_select_exhausted:
  "p_count s \<ge> p_messageCount cfg \<or> p_count s \<ge> int (length (p_events cfg)) \<Longrightarrow>
   producer_select cfg s (Tick r) =
     Return (s\<lparr>p_logged := p_logged s @
        [''Sent '' @ fmt_d (p_count s) @ '' messages, stopping producer''] @
        showProducerPartitionSummary (p_order cfg) (p_partitionMap s)\<rparr>)"
  by (simp add: producer_select_def)

lemma showProducerPartitionSummary_empty:
  "showProducerPartitionSummary ord [] = [[], summary_header, ''======================================'']"
  by (simp add: showProducerPartitionSummary_def range_keys_def)

lemma fmt_d_0: "fmt_d 0 = ''0''"
  by code_simp

lemma producer_select_failed:
  "p_count s < p_messageCount cfg \<Longrightarrow> p_count s < int (length (p_events cfg)) \<Longrightarrow>
   producer_select cfg s (Tick (SendError err)) =
     Continue (s\<lparr>p_sent := p_sent s @
                  [ProducerMessage (p_topic cfg) (UserID (p_events cfg ! nat (p_count s)))
                     (p_encode cfg (p_events cfg ! nat (p_count s)))],
                p_logged := p_logged s @ [''Failed to send message: '' @ err],
                p_count := p_count s + 1\<rparr>)"
  by (simp add: producer_select_def Let_def)

lemma producer_select_attempts:
  "p_count s < p_messageCount cfg \<Longrightarrow> p_count s < int (length (p_events cfg)) \<Longrightarrow>
   \<exists>s'. producer_select cfg s (Tick r) = Continue s' \<and>
        p_sent s' = p_sent s @
          [ProducerMessage (p_topic cfg) (UserID (p_events cfg ! nat (p_count s)))
             (p_encode cfg (p_events cfg ! nat (p_count s)))]"
  by (cases r) (simp_all add: producer_select_def Let_def)

text \<open>
  C8. A tick on which the send fails does not end the loop: after it the loop has not
  returned and waits for the next case, the failure is logged, the distribution record
  is as it was, and the counter has moved on by one. On the next tick (if the message
  count is not exhausted) the loop hands the next event of the sequence to the broker,
  whatever the broker answers then, and still has not returned.
\<close>

theorem failed_send_continues:
  assumes "0 \<le> p_count s"
    and "p_count s < p_messageCount cfg"
    and "p_count s < int (length (p_events cfg))"
  shows "\<exists>s'. producer_select cfg s (Tick (SendError err)) = Continue s' \<and>
           producer_loop cfg s [Tick (SendError err)] = Continue s' \<and>
           producer_loop cfg s (Tick (SendError err) # cs) = producer_loop cfg s' cs \<and>
           p_partitionMap s' = p_partitionMap s \<and>
           p_logged s' = p_logged s @ [''Failed to send message: '' @ err] \<and>
           p_count s' = p_count s + 1 \<and>
           p_sent s' = p_sent s @
             [ProducerMessage (p_topic cfg) (UserID (p_events cfg ! nat (p_count s)))
                (p_encode cfg (p_events cfg ! nat (p_count s)))] \<and>
           (p_count s + 1 < p_messageCount cfg \<and> p_count s + 1 < int (length (p_events cfg)) \<longrightarrow>
              (\<forall>r. \<exists>s''. producer_select cfg s' (Tick r) = Continue s'' \<and>
                 producer_loop cfg s [Tick (SendError err), Tick r] = Continue s'' \<and>
                 p_count s'' = p_count s + 2 \<and>
                 p_sent s'' = p_sent s @
                   [ProducerMessage (p_topic cfg) (UserID (p_events cfg ! nat (p_count s)))
                      (p_encode cfg (p_events cfg ! nat (p_count s))),
                    ProducerMessage (p_topic cfg) (UserID (p_events cfg ! (nat (p_count s) + 1)))
                      (p_encode cfg (p_events cfg ! (nat (p_count s) + 1)))] \<and>
                 p_sent s'' = p_sent s' @
                   [ProducerMessage (p_topic cfg) (UserID (p_events cfg ! (nat (p_count s) + 1)))
                      (p_encode cfg (p_events cfg ! (nat (p_count s) + 1)))]))"
proof -
  let ?m0 = "ProducerMessage (p_topic cfg) (UserID (p_events cfg ! nat (p_count s)))
               (p_encode cfg (p_events cfg ! nat (p_count s)))"
  let ?m1 = "ProducerMessage (p_topic cfg) (UserID (p_events cfg ! (nat (p_count s) + 1)))
               (p_encode cfg (p_events cfg ! (nat (p_count s) + 1)))"
  let ?s' = "s\<lparr>p_sent := p_sent s @ [?m0],
                p_logged := p_logged s @ [''Failed to send message: '' @ err],
                p_count := p_count s + 1\<rparr>"
  have sel: "producer_select cfg s (Tick (SendError err)) = Continue ?s'"
    using assms(2,3) by (rule producer_select_failed)
  have nxt: "nat (p_count ?s') = nat (p_count s) + 1"
    using assms(1) by simp
  have two: "p_count s + 1 < p_messageCount cfg \<and> p_count s + 1 < int (length (p_events cfg)) \<longrightarrow>
     (\<forall>r. \<exists>s''. producer_select cfg ?s' (Tick r) = Continue s'' \<and>
                 producer_loop cfg s [Tick (SendError err), Tick r] = Continue s'' \<and>
                 p_count s'' = p_count s + 2 \<and>
                 p_sent s'' = p_sent s @ [?m0, ?m1] \<and>
                 p_sent s'' = p_sent ?s' @ [?m1])"
  proof (intro impI allI)
    fix r
    assume "p_count s + 1 < p_messageCount cfg \<and> p_count s + 1 < int (length (p_events cfg))"
    then have r1: "p_count ?s' < p_messageCount cfg" and r2: "p_count ?s' < int (length (p_events cfg))"
      by simp_all
    from producer_select_attempts [OF r1 r2, of r] nxt
    obtain s'' where a: "producer_select cfg ?s' (Tick r) = Continue s''"
      and b: "p_sent s'' = p_sent ?s' @ [?m1]"
      by auto
    have c: "p_count s'' = p_count ?s' + 1"
      using a r1 r2 by (cases r) (auto simp: producer_select_def Let_def)
    have l: "producer_loop cfg s [Tick (SendError err), Tick r] = Continue s''"
      using sel a by simp
    from a b c l
    show "\<exists>s''. producer_select cfg ?s' (Tick r) = Continue s'' \<and>
                 producer_loop cfg s [Tick (SendError err), Tick r] = Continue s'' \<and>
                 p_count s'' = p_count s + 2 \<and>
                 p_sent s'' = p_sent s @ [?m0, ?m1] \<and>
                 p_sent s'' = p_sent ?s' @ [?m1]"
      by (intro exI [of _ s'']) simp
  qed
  have one: "producer_loop cfg s [Tick (SendError err)] = Continue ?s'"
    using sel by simp
  have rest: "producer_loop cfg s (Tick (SendError err) # cs) = producer_loop cfg ?s' cs"
    using sel by simp
  from sel one rest two show ?thesis
    by (intro exI [of _ ?s']) simp
qed

theorem failed_send_continues_witness:
  "0 \<le> p_count demo_state \<and> p_count demo_state < p_messageCount demo_setup \<and>
   p_count demo_state < int (length (p_events demo_setup)) \<and>
   p_count demo_state + 1 < p_messageCount demo_setup \<and>
   p_count demo_state + 1 < int (length (p_events demo_setup)) \<and>
   (\<exists>s'. producer_loop demo_setup demo_state [Tick (SendError ''broker down'')] = Continue s' \<and>
      p_partitionMap s' = [] \<and>
      p_logged s' = [''Failed to send message: broker down''] \<and>
      p_count s' = 1 \<and>
      p_sent s' = [ProducerMessage ''test-topic'' ''user-123'' ''page_view'']) \<and>
   (\<exists>s''. producer_loop demo_setup demo_state
             [Tick (SendError ''broker down''), Tick (Delivered 2 7)] = Continue s'' \<and>
      p_count s'' = 2 \<and>
      p_sent s'' = [ProducerMessage ''test-topic'' ''user-123'' ''page_view'',
                    ProducerMessage ''test-topic'' ''user-456'' ''purchase''])"
proof -
  have h1: "0 \<le> p_count demo_state" by code_simp
  have h2: "p_count demo_state < p_messageCount demo_setup" by code_simp
  have h3: "p_count demo_state < int (length (p_events demo_setup))" by code_simp
  have h4: "p_count demo_state + 1 < p_messageCount demo_setup \<and>
            p_count demo_state + 1 < int (length (p_events demo_setup))" by code_simp
  have v: "p_partitionMap demo_state = []" "p_logged demo_state = []" "p_count demo_state = 0"
    "p_sent demo_state = []"
    by (simp_all add: demo_state_def)
  have m0: "ProducerMessage (p_topic demo_setup) (UserID (p_events demo_setup ! nat 0))
              (p_encode demo_setup (p_events demo_setup ! nat 0)) =
            ProducerMessage ''test-topic'' ''user-123'' ''page_view''"
    by code_simp
  have m1: "ProducerMessage (p_topic demo_setup) (UserID (p_events demo_setup ! (nat 0 + 1)))
              (p_encode demo_setup (p_events demo_setup ! (nat 0 + 1))) =
            ProducerMessage ''test-topic'' ''user-456'' ''purchase''"
    by code_simp
  from failed_send_continues [OF h1 h2 h3, of "''broker down''" "[]"]
  obtain s' where s': "producer_loop demo_setup demo_state [Tick (SendError ''broker down'')] = Continue s'"
    "p_partitionMap s' = p_partitionMap demo_state"
    "p_logged s' = p_logged demo_state @ [''Failed to send message: '' @ ''broker down'']"
    "p_count s' = p_count demo_state + 1"
    "p_sent s' = p_sent demo_state @
       [ProducerMessage (p_topic demo_setup) (UserID (p_events demo_setup ! nat (p_count demo_state)))
          (p_encode demo_setup (p_events demo_setup ! nat (p_count demo_state)))]"
    and nxt: "p_count demo_state + 1 < p_messageCount demo_setup \<and>
        p_count demo_state + 1 < int (length (p_events demo_setup)) \<longrightarrow>
        (\<forall>r. \<exists>s''. producer_select demo_setup s' (Tick r) = Continue s'' \<and>
           producer_loop demo_setup demo_state [Tick (SendError ''broker down''), Tick r] = Continue s'' \<and>
           p_count s'' = p_count demo_state + 2 \<and>
           p_sent s'' = p_sent demo_state @
             [ProducerMessage (p_topic demo_setup) (UserID (p_events demo_setup ! nat (p_count demo_state)))
                (p_encode demo_setup (p_events demo_setup ! nat (p_count demo_state))),
              ProducerMessage (p_topic demo_setup) (UserID (p_events demo_setup ! (nat (p_count demo_state) + 1)))
                (p_encode demo_setup (p_events demo_setup ! (nat (p_count demo_state) + 1)))] \<and>
           p_sent s'' = p_sent s' @
             [ProducerMessage (p_topic demo_setup) (UserID (p_events demo_setup ! (nat (p_count demo_state) + 1)))
                (p_encode demo_setup (p_events demo_setup ! (nat (p_count demo_state) + 1)))])"
    by blast
  from nxt h4 obtain s'' where s'':
    "producer_loop demo_setup demo_state [Tick (SendError ''broker down''), Tick (Delivered 2 7)] = Continue s''"
    "p_count s'' = p_count demo_state + 2"
    "p_sent s'' = p_sent demo_state @
             [ProducerMessage (p_topic demo_setup) (UserID (p_events demo_setup ! nat (p_count demo_state)))
                (p_encode demo_setup (p_events demo_setup ! nat (p_count demo_state))),
              ProducerMessage (p_topic demo_setup) (UserID (p_events demo_setup ! (nat (p_count demo_state) + 1)))
                (p_encode demo_setup (p_events demo_setup ! (nat (p_count demo_state) + 1)))]"
    by blast
  from s' have A: "\<exists>s'. producer_loop demo_setup demo_state [Tick (SendError ''broker down'')] = Continue s' \<and>
      p_partitionMap s' = [] \<and>
      p_logged s' = [''Failed to send message: broker down''] \<and>
      p_count s' = 1 \<and>
      p_sent s' = [ProducerMessage ''test-topic'' ''user-123'' ''page_view'']"
    using m0 by (intro exI [of _ s']) (simp add: v)
  from s'' have B: "\<exists>s''. producer_loop demo_setup demo_state
             [Tick (SendError ''broker down''), Tick (Delivered 2 7)] = Continue s'' \<and>
      p_count s'' = 2 \<and>
      p_sent s'' = [ProducerMessage ''test-topic'' ''user-123'' ''page_view'',
                    ProducerMessage ''test-topic'' ''user-456'' ''purchase'']"
    using m0 m1 by (intro exI [of _ s'']) (simp add: v)
  from h1 h2 h3 h4 A B show ?thesis by blast
qed

text \<open>
  C9. A producer run with MESSAGE_COUNT=0 (the brokers reachable, the tick interval a
  positive duration, and the select taking at least one case): nothing is handed to the
  broker, the distribution record stays empty, and the process exits with status 0. The
  summary is either omitted (the cancellation was taken first) or empty: the blank
  line, the header and the footer, with no line between header and footer.
\<close>

theorem producer_zero_messages:
  assumes "getEnvAsInt (w_env w) ''MESSAGE_COUNT'' 20 = 0"
    and "w_connect_error w = None"
    and "0 < milliseconds (getEnvAsInt (w_env w) ''MESSAGE_INTERVAL_MS'' 500)"
    and "w_cases w \<noteq> []"
  shows "fst (producer_main w) = Exit 0 \<and>
         p_sent (snd (producer_main w)) = [] \<and>
         p_partitionMap (snd (producer_main w)) = [] \<and>
         (p_logged (snd (producer_main w)) = producer_banner w @ [''Producer stopped''] \<or>
          p_logged (snd (producer_main w)) = producer_banner w @
            [''Sent 0 messages, stopping producer'', [], summary_header,
             ''======================================''])"
proof -
  from assms(4) obtain c cs where cs: "w_cases w = c # cs" by (cases "w_cases w") auto
  let ?cfg = "\<lparr>p_topic = getEnv (w_env w) ''KAFKA_TOPIC'' ''test-topic'', p_messageCount = 0,
                p_events = generateUserEvents (w_clock w) 0,
                p_encode = w_encode w, p_order = w_order w\<rparr>"
  let ?s0 = "\<lparr>p_count = 0, p_partitionMap = [], p_logged = producer_banner w, p_sent = []\<rparr>"
  have main: "producer_main w =
      (case producer_loop ?cfg ?s0 (c # cs) of Return s \<Rightarrow> (Exit 0, s) | Continue s \<Rightarrow> (Waiting, s))"
    using assms(1,2,3) cs by (simp add: producer_main_def Let_def)
  show ?thesis
  proof (cases c)
    case CtxDone
    then have "producer_loop ?cfg ?s0 (c # cs) =
        Return (?s0\<lparr>p_logged := producer_banner w @ [''Producer stopped'']\<rparr>)"
      by (simp add: producer_select_CtxDone)
    with main show ?thesis by simp
  next
    case (Tick r)
    have "producer_select ?cfg ?s0 (Tick r) =
        Return (?s0\<lparr>p_logged := p_logged ?s0 @
          [''Sent '' @ fmt_d (p_count ?s0) @ '' messages, stopping producer''] @
          showProducerPartitionSummary (p_order ?cfg) (p_partitionMap ?s0)\<rparr>)"
      by (rule producer_select_exhausted) simp
    with Tick have "producer_loop ?cfg ?s0 (c # cs) =
        Return (?s0\<lparr>p_logged := producer_banner w @
          [''Sent 0 messages, stopping producer'', [], summary_header,
           ''======================================'']\<rparr>)"
      by (simp add: showProducerPartitionSummary_empty fmt_d_0)
    with main show ?thesis by simp
  qed
qed

theorem producer_zero_messages_witness:
  "fst (producer_main (zero_count_world [Tick (Delivered 1 0)])) = Exit 0 \<and>
   p_sent (snd (producer_main (zero_count_world [Tick (Delivered 1 0)]))) = [] \<and>
   p_partitionMap (snd (producer_main (zero_count_world [Tick (Delivered 1 0)]))) = [] \<and>
   p_logged (snd (producer_main (zero_count_world [Tick (Delivered 1 0)]))) =
     [''Starting Kafka Producer - Partition Routing Demo'',
      ''Brokers: [localhost:9092 localhost:9094 localhost:9096]'',
      ''Topic: test-topic'', ''Message Count: 0'', ''Message Interval: 500ms'', [],
      ''Sent 0 messages, stopping producer'', [], ''=== Partition Distribution Summary ==='',
      ''======================================'']"
proof -
  let ?w = "zero_count_world [Tick (Delivered 1 0)]"
  have h1: "getEnvAsInt (w_env ?w) ''MESSAGE_COUNT'' 20 = 0" by code_simp
  have h2: "w_connect_error ?w = None" by (simp add: zero_count_world_def)
  have h3: "0 < milliseconds (getEnvAsInt (w_env ?w) ''MESSAGE_INTERVAL_MS'' 500)" by code_simp
  have h4: "w_cases ?w \<noteq> []" by (simp add: zero_count_world_def)
  have b: "producer_banner ?w =
     [''Starting Kafka Producer - Partition Routing Demo'',
      ''Brokers: [localhost:9092 localhost:9094 localhost:9096]'',
      ''Topic: test-topic'', ''Message Count: 0'', ''Message Interval: 500ms'', []]"
    by code_simp
  have l: "p_logged (snd (producer_main ?w)) \<noteq> producer_banner ?w @ [''Producer stopped'']"
    by code_simp
  from producer_zero_messages [OF h1 h2 h3 h4] l b show ?thesis
    by (simp add: summary_header_def)
qed

text \<open>
  C2, evaluated at a run where one message has been delivered and the cancellation is
  taken next: the loop stops and sends nothing more, but the last line logged is
  \<^verbatim>\<open>Producer stopped\<close>; the summary of the one delivered message is not printed
  (lemma \<open>producer_loop_cancel\<close> shows the same for every state).
\<close>

theorem cancelled_producer_prints_no_summary:
  "producer_main cancelled_world =
     (Exit 0,
      \<lparr>p_count = 1, p_partitionMap = [(''user-123'', [1])],
       p_logged = [''Starting Kafka Producer - Partition Routing Demo'',
          ''Brokers: [localhost:9092 localhost:9094 localhost:9096]'',
          ''Topic: test-topic'', ''Message Count: 3'', ''Message Interval: 500ms'', [],
          ''Message sent - Partition: 1, Offset: 0, Key: user-123, Event: page_view'',
          ''Producer stopped''],
       p_sent = [ProducerMessage ''test-topic'' ''user-123'' ''page_view'']\<rparr>)"
  by code_simp

section \<open>Properties of the consumer\<close>

text \<open>
  A call of \<^verbatim>\<open>ConsumeClaim\<close> receives and marks every message its claim delivers
  before the channel closes or the session is cancelled, however many they are; and it
  prints the summary at most once.
\<close>

lemma claim_loop_receives_all:
  assumes "c = ChannelClosed \<or> c = SessionDone"
  shows "\<exists>s'. claim_loop ord s (map Message ms @ c # cs) = Return s' \<and>
           c_marked s' = c_marked s @ ms \<and>
           c_messageCount s' = c_messageCount s + int (length ms)"
proof (induction ms arbitrary: s)
  case Nil
  from assms show ?case
    by (auto simp: claim_select_def)
next
  case (Cons m ms)
  let ?s1 = "s\<lparr>c_messageCount := c_messageCount s + 1,
                 c_partitionMap := append_partition (c_partitionMap s) (Key m) (Partition m),
                 c_logged := c_logged s @
                   [''Message #'' @ fmt_d (c_messageCount s + 1) @ '' received - Partition: '' @
                    fmt_d (sint (Partition m)) @ '', Offset: '' @
                    fmt_d (sint (Offset m)) @ '', Key: '' @ Key m @
                    '', Value: '' @ Value m],
                 c_marked := c_marked s @ [m]\<rparr>"
  have step: "claim_select ord s (Message m) = Continue ?s1"
    by (simp add: claim_select_def Let_def)
  from Cons.IH [of ?s1] obtain s' where
    "claim_loop ord ?s1 (map Message ms @ c # cs) = Return s'"
    "c_marked s' = c_marked ?s1 @ ms"
    "c_messageCount s' = c_messageCount ?s1 + int (length ms)"
    by blast
  with step show ?case
    by (intro exI [of _ s']) simp
qed


lemma consumer_row_not_header: "consumer_row ord pm k \<noteq> summary_header"
  by (simp add: consumer_row_def summary_header_def Let_def)

lemma count_header_showPartitionSummary:
  "count_list (showPartitionSummary ord pm) summary_header = 1"
proof -
  have "summary_header \<notin> set (map (consumer_row ord pm) (range_keys ord pm))"
    using consumer_row_not_header [of ord pm] by (auto simp: image_iff) metis
  then have "count_list (map (consumer_row ord pm) (range_keys ord pm)) summary_header = 0"
    by (simp add: count_list_0_iff)
  then show ?thesis
    by (simp add: showPartitionSummary_def summary_header_def)
qed

lemma claim_select_Continue_header:
  assumes "claim_select ord s c = Continue s'"
  shows "count_list (c_logged s') summary_header = count_list (c_logged s) summary_header"
  using assms by (cases c) (auto simp: claim_select_def Let_def summary_header_def)

lemma claim_select_Return_header:
  assumes "claim_select ord s c = Return s'"
  shows "count_list (c_logged s') summary_header \<le> count_list (c_logged s) summary_header + 1"
  using assms
  by (cases c) (auto simp: claim_select_def Let_def count_header_showPartitionSummary
      split: if_splits)

lemma claim_loop_summary_once:
  "claim_loop ord s cs = Return s' \<Longrightarrow>
   count_list (c_logged s') summary_header \<le> count_list (c_logged s) summary_header + 1"
proof (induction cs arbitrary: s)
  case Nil
  then show ?case by simp
next
  case (Cons c cs)
  show ?case
  proof (cases "claim_select ord s c")
    case (Continue s1)
    with Cons.prems have "claim_loop ord s1 cs = Return s'" by simp
    from Cons.IH [OF this] claim_select_Continue_header [OF Continue] show ?thesis by simp
  next
    case (Return s1)
    with Cons.prems have "s' = s1" by simp
    with claim_select_Return_header [OF Return] show ?thesis by simp
  qed
qed

lemma ConsumeClaim_summary_once:
  assumes "ConsumeClaim ord eff cs = Return eff'"
  shows "count_list (fst eff') summary_header \<le> count_list (fst eff) summary_header + 1"
proof -
  let ?s0 = "\<lparr>c_partitionMap = [], c_messageCount = 0, c_summaryShown = False,
              c_logged = fst eff, c_marked = snd eff\<rparr>"
  from assms obtain s where "claim_loop ord ?s0 cs = Return s" and "eff' = (c_logged s, c_marked s)"
    by (auto simp: ConsumeClaim_def split: flow.splits)
  with claim_loop_summary_once [of ord ?s0 cs s] show ?thesis by simp
qed

text \<open>
  C1, evaluated at a run with MAX_MESSAGES=3 whose one claim delivers four messages
  before the session ends: the value 3 is read, and all four messages are received,
  logged and marked. Nothing in the consume loop reads the bound (lemma
  \<open>claim_loop_receives_all\<close> holds for any number of messages).
\<close>

theorem max_messages_not_enforced:
  "getEnvAsInt (cw_env max3_world) ''MAX_MESSAGES'' 0 = 3 \<and>
   snd (snd (consumer_main max3_world)) =
     [msg ''user-123'' 0 0, msg ''user-123'' 0 1, msg ''user-123'' 0 2, msg ''user-123'' 0 3] \<and>
   filter (\<lambda>l. take 9 l = ''Message #'') (fst (snd (consumer_main max3_world))) =
     [''Message #1 received - Partition: 0, Offset: 0, Key: user-123, Value: v'',
      ''Message #2 received - Partition: 0, Offset: 1, Key: user-123, Value: v'',
      ''Message #3 received - Partition: 0, Offset: 2, Key: user-123, Value: v'',
      ''Message #4 received - Partition: 0, Offset: 3, Key: user-123, Value: v'']"
  by code_simp

text \<open>
  C3, evaluated at two runs of one process: two sessions with one claim each (the first
  ended by its channel closing at a rebalance, the second by cancellation), and one
  session with two claims ended by cancellation. Each prints the summary twice: the
  guard \<^verbatim>\<open>summaryShown\<close> and the record are local to a call of \<^verbatim>\<open>ConsumeClaim\<close>,
  so the guard bounds the summaries of one call only (lemma \<open>ConsumeClaim_summary_once\<close>).
\<close>

theorem summary_printed_once_per_claim:
  "count_list (fst (snd (consumer_main two_session_world))) summary_header = 2 \<and>
   count_list (fst (snd (consumer_main two_claim_world))) summary_header = 2"
  by code_simp

end
